theory Spec2Isabelle
  imports Main "HOL-Library.Word"
begin

unbundle bit_operations_syntax

section \<open>Event records\<close>

text \<open>
  C \<open>int\<close> values (ids, handles, codes, counts) are modelled as \<open>int\<close>: no
  operation of the engine can overflow them.  Widths are kept where they matter:
  the fields of the OS packet, raw bytes, and the 64-bit \<open>long long\<close> timestamp,
  whose arithmetic wraps (\<open>sint\<close> reads it as two's complement).

  The fields of \<open>struct ni_event\<close> are the ones \<open>libasyncinput_posix.c\<close>
  assigns: the five public ones and the \<open>extra\<close>, \<open>x\<close>, \<open>y\<close> payload of the
  unified pointer events.
\<close>

type_synonym c_llong = "64 word"
type_synonym byte = "8 word"

record ni_event =
  ev_device_id :: int
  ev_type :: int
  ev_code :: int
  ev_value :: int
  ev_timestamp_ns :: c_llong
  ev_extra :: int
  ev_x :: int
  ev_y :: int

text \<open>\<open>struct ni_event ev = {0}\<close>\<close>

definition ni_event_zero :: ni_event where
  "ni_event_zero = \<lparr>ev_device_id = 0, ev_type = 0, ev_code = 0, ev_value = 0,
     ev_timestamp_ns = 0, ev_extra = 0, ev_x = 0, ev_y = 0\<rparr>"

text \<open>The published constants (\<open>asyncinput.h\<close>; on Linux they alias evdev's).\<close>

definition NI_EV_KEY :: int where "NI_EV_KEY = 1"
definition NI_EV_REL :: int where "NI_EV_REL = 2"
definition NI_REL_X :: int where "NI_REL_X = 0"
definition NI_REL_Y :: int where "NI_REL_Y = 1"
definition NI_REL_WHEEL :: int where "NI_REL_WHEEL = 8"
definition NI_BTN_LEFT :: int where "NI_BTN_LEFT = 272"
definition NI_BTN_RIGHT :: int where "NI_BTN_RIGHT = 273"
definition NI_BTN_MIDDLE :: int where "NI_BTN_MIDDLE = 274"

text \<open>
  Declarations that \<open>libasyncinput_posix.c\<close> takes from a later revision of
  the public header than the one modelled above: the codes of the unified
  pointer events,
  the sizes of the character arrays in \<open>struct ni_key_event\<close> and
  \<open>struct ni_device_info\<close>, and the build switch
  \<open>ASYNCINPUT_HAVE_XKBCOMMON\<close>.  They are parameters of the model.
\<close>

record abi =
  NI_EV_MOUSE :: int
  NI_MOUSE_BUTTON :: int
  NI_MOUSE_MOVE :: int
  text_size :: nat
  info_path_size :: nat
  info_name_size :: nat
  have_xkbcommon :: bool

section \<open>The bounded ring\<close>

text \<open>
  \<open>struct ringbuf\<close> and \<open>struct keyringbuf\<close> have the same shape and the same
  code, so one polymorphic record models both.  \<open>head\<close> and \<open>tail\<close> are C
  \<open>int\<close>s that only ever hold values in \<open>[0, RING_SIZE)\<close>; they are naturals
  here and \<open>%\<close> is \<open>mod\<close>.  The mutex is not modelled: every operation runs
  as one atomic step.
\<close>

definition RING_SIZE :: nat where
  "RING_SIZE = 1024"

record 'a ringbuf =
  ev :: "'a list"
  head :: nat
  tail :: nat

text \<open>\<open>ring_init\<close>: \<open>memset\<close> to zero; \<open>z\<close> is the all-zero element.\<close>

definition ring_init :: "'a \<Rightarrow> 'a ringbuf" where
  "ring_init z = \<lparr>ev = replicate RING_SIZE z, head = 0, tail = 0\<rparr>"

definition ring_push :: "'a ringbuf \<Rightarrow> 'a \<Rightarrow> 'a ringbuf" where
  "ring_push r e =
     (let next = (head r + 1) mod RING_SIZE in
      if next \<noteq> tail r then r\<lparr>ev := (ev r)[head r := e], head := next\<rparr> else r)"

text \<open>
  The loop of \<open>ring_pop_many\<close>.  \<open>out\<close> is the part of the caller's buffer written
  so far (\<open>out[0..n)\<close>), so \<open>out[n++] = x\<close> appends.
\<close>

function ring_pop_loop :: "'a ringbuf \<Rightarrow> 'a list \<Rightarrow> int \<Rightarrow> int \<Rightarrow> int \<times> 'a list \<times> 'a ringbuf" where
  "ring_pop_loop r out n max_n =
     (if n < max_n \<and> tail r \<noteq> head r
      then ring_pop_loop (r\<lparr>tail := (tail r + 1) mod RING_SIZE\<rparr>) (out @ [ev r ! tail r]) (n + 1) max_n
      else (n, out, r))"
  by pat_completeness auto
termination
  by (relation "measure (\<lambda>(r, out, n, max_n). nat (max_n - n))") auto

declare ring_pop_loop.simps [simp del]

definition ring_pop_many :: "'a ringbuf \<Rightarrow> int \<Rightarrow> int \<times> 'a list \<times> 'a ringbuf" where
  "ring_pop_many r max_n = ring_pop_loop r [] 0 max_n"

definition keyring_init :: "'a \<Rightarrow> 'a ringbuf" where
  "keyring_init z = \<lparr>ev = replicate RING_SIZE z, head = 0, tail = 0\<rparr>"

definition keyring_push :: "'a ringbuf \<Rightarrow> 'a \<Rightarrow> 'a ringbuf" where
  "keyring_push r e =
     (let next = (head r + 1) mod RING_SIZE in
      if next \<noteq> tail r then r\<lparr>ev := (ev r)[head r := e], head := next\<rparr> else r)"

definition keyring_pop_many :: "'a ringbuf \<Rightarrow> int \<Rightarrow> int \<times> 'a list \<times> 'a ringbuf" where
  "keyring_pop_many r max_n = ring_pop_loop r [] 0 max_n"

section \<open>Engine state\<close>

record device =
  dev_fd :: int
  dev_id :: int
  dev_path :: string

record ni_key_event =
  kev_device_id :: int
  kev_timestamp_ns :: c_llong
  kev_down :: int
  kev_keysym :: "32 word"
  kev_mods :: "32 word"
  kev_text :: "byte list"

record ni_device_info =
  info_id :: int
  info_path :: string
  info_name :: string
  info_bustype :: int
  info_vendor :: int
  info_product :: int
  info_version :: int

text \<open>
  The system calls the engine issues on the readiness multiplexer and on device
  handles, in the order issued.
\<close>

datatype syscall = EpollAdd int | EpollDel int | Close int

text \<open>
  The process-wide state \<open>g\<close>.  \<open>devices\<close> is the used part
  \<open>devices[0..ndevi)\<close> of the array, so \<open>ndevi\<close> is its length; the array itself
  has \<open>MAX_DEVICES\<close> slots and \<open>add_device_fd\<close> does not check that bound.  A sink
  is a function pointer with its user context, \<open>None\<close> for \<open>NULL\<close>; the events
  handed to it are recorded in \<open>delivered\<close> and \<open>key_delivered\<close>.  The device
  filter is the predicate itself.  Thread handles are flags (started or not);
  \<open>xkb_state\<close> is \<open>None\<close> for \<open>NULL\<close>.  \<open>delivered\<close>, \<open>key_delivered\<close> and
  \<open>sys_log\<close> are observation logs, not part of the C structure; mutexes are not
  modelled.
\<close>

type_synonym sink = nat

record 'x engine =
  initialized :: bool
  epoll_fd :: int
  inotify_fd :: int
  thread :: bool
  stop :: bool
  devices :: "device list"
  queue :: "ni_event ringbuf"
  cb :: "sink option"
  dev_filter :: "(ni_device_info \<Rightarrow> bool) option"
  rescan_until_ns :: c_llong
  mice_enabled :: bool
  mice_fd :: int
  mice_thread :: bool
  xkb_enabled :: bool
  xkb_state :: "'x option"
  xkb_rules :: string
  xkb_model :: string
  xkb_layout :: string
  xkb_variant :: string
  xkb_options :: string
  key_queue :: "ni_key_event ringbuf"
  key_cb :: "sink option"
  delivered :: "ni_event list"
  key_delivered :: "ni_key_event list"
  sys_log :: "syscall list"

definition MAX_DEVICES :: nat where
  "MAX_DEVICES = 128"

definition ni_key_event_zero :: "abi \<Rightarrow> ni_key_event" where
  "ni_key_event_zero a = \<lparr>kev_device_id = 0, kev_timestamp_ns = 0, kev_down = 0,
     kev_keysym = 0, kev_mods = 0, kev_text = replicate (text_size a) 0\<rparr>"

definition ndevi :: "'x engine \<Rightarrow> int" where
  "ndevi g = int (length (devices g))"

section \<open>Dispatch\<close>

definition emit_or_queue :: "'x engine \<Rightarrow> ni_event \<Rightarrow> 'x engine" where
  "emit_or_queue g e =
     (if cb g \<noteq> None then g\<lparr>delivered := delivered g @ [e]\<rparr>
      else g\<lparr>queue := ring_push (queue g) e\<rparr>)"

section \<open>Legacy pointer reader\<close>

text \<open>
  One pass of the body of \<open>if (have >= 3)\<close> in \<open>mice_worker\<close>: the events handed
  to \<open>emit_or_queue\<close>, in order.  \<open>t\<close> is the value of \<open>now_ns()\<close>.
\<close>

definition mouse_button_event :: "abi \<Rightarrow> c_llong \<Rightarrow> int \<Rightarrow> int \<Rightarrow> ni_event" where
  "mouse_button_event a t extra v =
     ni_event_zero\<lparr>ev_device_id := - 2, ev_timestamp_ns := t, ev_type := NI_EV_MOUSE a,
       ev_code := NI_MOUSE_BUTTON a, ev_extra := extra, ev_value := v\<rparr>"

definition mice_packet_events :: "abi \<Rightarrow> c_llong \<Rightarrow> byte list \<Rightarrow> nat \<Rightarrow> ni_event list" where
  "mice_packet_events a t pkt have =
     (let btn = pkt ! 0;
          dx = sint (pkt ! 1);
          dy = sint (pkt ! 2);
          ev = ni_event_zero\<lparr>ev_device_id := - 2, ev_timestamp_ns := t\<rparr>;
          ev1 = ev\<lparr>ev_type := NI_EV_KEY, ev_code := NI_BTN_LEFT,
                   ev_value := (if btn AND 1 \<noteq> 0 then 1 else 0)\<rparr>;
          ev2 = ev1\<lparr>ev_code := NI_BTN_RIGHT, ev_value := (if btn AND 2 \<noteq> 0 then 1 else 0)\<rparr>;
          ev3 = ev2\<lparr>ev_code := NI_BTN_MIDDLE, ev_value := (if btn AND 4 \<noteq> 0 then 1 else 0)\<rparr>;
          ev4 = ev3\<lparr>ev_type := NI_EV_REL, ev_code := NI_REL_X, ev_value := dx\<rparr>;
          ev5 = ev4\<lparr>ev_type := NI_EV_REL, ev_code := NI_REL_Y, ev_value := - dy\<rparr>
      in [ev1, ev2, ev3]
         @ (if btn AND 1 \<noteq> 0 then [mouse_button_event a t 1 1] else [])
         @ (if \<not> btn AND 1 \<noteq> 0 then [mouse_button_event a t 1 0] else [])
         @ (if btn AND 2 \<noteq> 0 then [mouse_button_event a t 2 1] else [])
         @ (if \<not> btn AND 2 \<noteq> 0 then [mouse_button_event a t 2 0] else [])
         @ (if btn AND 4 \<noteq> 0 then [mouse_button_event a t 3 1] else [])
         @ (if \<not> btn AND 4 \<noteq> 0 then [mouse_button_event a t 3 0] else [])
         @ [ev4, ev5]
         @ (if dx \<noteq> 0 \<or> dy \<noteq> 0
            then [ni_event_zero\<lparr>ev_device_id := - 2, ev_timestamp_ns := t, ev_type := NI_EV_MOUSE a,
                    ev_code := NI_MOUSE_MOVE a, ev_x := dx, ev_y := - dy\<rparr>]
            else [])
         @ (if have \<ge> 4
            then [ev5\<lparr>ev_type := NI_EV_REL, ev_code := NI_REL_WHEEL, ev_value := sint (pkt ! 3)\<rparr>]
            else []))"

text \<open>
  The parser state that survives between bytes: the packet buffer \<open>pkt[4]\<close> and
  the fill count \<open>have\<close> (field \<open>have_n\<close>).  One step is the body of the
  \<open>for\<close> loop over the bytes of a read; each byte comes with the clock sample \<open>now_ns()\<close> would give
  if the byte completes a packet.  \<open>pkt\<close> starts uninitialised in C; no slot is
  read before it is written, so it starts as zeros here.
\<close>

record mice_state =
  pkt :: "byte list"
  have_n :: nat

definition mice_state_init :: mice_state where
  "mice_state_init = \<lparr>pkt = [0, 0, 0, 0], have_n = 0\<rparr>"

definition mice_on_byte :: "abi \<Rightarrow> 'x engine \<times> mice_state \<Rightarrow> byte \<times> c_llong \<Rightarrow> 'x engine \<times> mice_state" where
  "mice_on_byte a gs bt =
     (let g = fst gs; st = snd gs; b = fst bt; t = snd bt;
          pkt1 = (pkt st)[have_n st := b];
          have1 = have_n st + 1
      in if have1 \<ge> 3
         then (foldl emit_or_queue g (mice_packet_events a t pkt1 have1), \<lparr>pkt = pkt1, have_n = 0\<rparr>)
         else (g, \<lparr>pkt = pkt1, have_n = have1\<rparr>))"

definition mice_on_read :: "abi \<Rightarrow> 'x engine \<times> mice_state \<Rightarrow> (byte \<times> c_llong) list \<Rightarrow> 'x engine \<times> mice_state" where
  "mice_on_read a gs buf = foldl (mice_on_byte a) gs buf"

section \<open>Device discovery\<close>

text \<open>
  What the operating system answers during one call of the engine: \<open>os_open\<close>
  is \<open>open(path, O_RDONLY | O_NONBLOCK | O_CLOEXEC)\<close> (\<open>None\<close> when it fails, a
  handle otherwise), \<open>os_ioctl_id\<close> and \<open>os_ioctl_name\<close> are the two identity
  queries of \<open>fill_device_info\<close> (\<open>None\<close> when the query fails),
  \<open>os_epoll_create\<close> and \<open>os_inotify_init\<close> are the values returned by
  \<open>epoll_create1\<close> and \<open>inotify_init1\<close>, and the two flags say whether
  \<open>pthread_create\<close> succeeds for the worker and for the legacy pointer reader.
\<close>

record os_env =
  os_open :: "string \<Rightarrow> int option"
  os_ioctl_id :: "int \<Rightarrow> (int \<times> int \<times> int \<times> int) option"
  os_ioctl_name :: "int \<Rightarrow> string option"
  os_epoll_create :: int
  os_inotify_init :: int
  os_worker_thread_ok :: bool
  os_mice_thread_ok :: bool

subsection \<open>C library text functions\<close>

definition is_space :: "char \<Rightarrow> bool" where
  "is_space c \<longleftrightarrow> of_char c \<in> {32, 9, 10, 11, 12, 13 :: nat}"

definition is_digit :: "char \<Rightarrow> bool" where
  "is_digit c \<longleftrightarrow> 48 \<le> (of_char c :: nat) \<and> (of_char c :: nat) \<le> 57"

fun atoi_digits :: "int \<Rightarrow> string \<Rightarrow> int" where
  "atoi_digits acc [] = acc"
| "atoi_digits acc (c # cs) =
     (if is_digit c then atoi_digits (acc * 10 + (int (of_char c) - 48)) cs else acc)"

text \<open>
  \<open>atoi\<close>: leading white space, an optional sign, then decimal digits.  The
  value is the number written, not reduced to the range of a C \<open>int\<close>; the
  library function differs from it for numbers of \<open>2\<^sup>3\<^sup>1\<close> or more.
\<close>

definition atoi :: "string \<Rightarrow> int" where
  "atoi s =
     (case dropWhile is_space s of
        [] \<Rightarrow> 0
      | c # cs \<Rightarrow>
          if c = CHR ''-'' then - atoi_digits 0 cs
          else if c = CHR ''+'' then atoi_digits 0 cs
          else atoi_digits 0 (c # cs))"

text \<open>
  \<open>strrchr(s, c)\<close> followed by \<open>p + 1\<close>: the text after the last \<open>c\<close>, \<open>None\<close>
  when \<open>c\<close> does not occur.
\<close>

definition strrchr_after :: "char \<Rightarrow> string \<Rightarrow> string option" where
  "strrchr_after c s =
     (if c \<in> set s then Some (rev (takeWhile (\<lambda>x. x \<noteq> c) (rev s))) else None)"

text \<open>\<open>%d\<close> of a non-negative number.\<close>

fun dec_string :: "nat \<Rightarrow> string" where
  "dec_string n =
     (if n < 10 then [char_of (48 + n)]
      else dec_string (n div 10) @ [char_of (48 + n mod 10)])"

declare dec_string.simps [simp del]

subsection \<open>Opening and registering\<close>

text \<open>
  \<open>fill_device_info\<close> starts with \<open>memset(out, 0, sizeof(*out))\<close>, so whatever the
  caller stored in \<open>out\<close> before the call is gone, the id included.
\<close>

definition fill_device_info :: "os_env \<Rightarrow> abi \<Rightarrow> int \<Rightarrow> string \<Rightarrow> ni_device_info" where
  "fill_device_info env a fd path =
     (let out0 = \<lparr>info_id = 0, info_path = take (info_path_size a - 1) path, info_name = [],
                   info_bustype = 0, info_vendor = 0, info_product = 0, info_version = 0\<rparr>;
          out1 = (case os_ioctl_id env fd of
                    Some (b, v, p, r) \<Rightarrow>
                      out0\<lparr>info_bustype := b, info_vendor := v, info_product := p, info_version := r\<rparr>
                  | None \<Rightarrow> out0)
      in case os_ioctl_name env fd of
           Some name \<Rightarrow> out1\<lparr>info_name := take (info_name_size a - 1) (take 255 name)\<rparr>
         | None \<Rightarrow> out1)"

definition path_devid :: "string \<Rightarrow> int" where
  "path_devid path =
     (case strrchr_after CHR ''t'' path of
        None \<Rightarrow> - 1
      | Some rest \<Rightarrow> (let n = atoi rest in if n \<ge> 0 then n else - 1))"

text \<open>
  \<open>open_device_filtered\<close>: the result is \<open>Some (fd, devid)\<close> when a handle is
  returned and \<open>None\<close> for \<open>-1\<close>.
\<close>

definition open_device_filtered :: "os_env \<Rightarrow> abi \<Rightarrow> 'x engine \<Rightarrow> string \<Rightarrow> (int \<times> int) option \<times> 'x engine" where
  "open_device_filtered env a g path =
     (let devid = path_devid path in
      case os_open env path of
        None \<Rightarrow> (None, g)
      | Some fd \<Rightarrow>
          (case dev_filter g of
             None \<Rightarrow> (Some (fd, devid), g)
           | Some f \<Rightarrow>
               if \<not> f (fill_device_info env a fd path)
               then (None, g\<lparr>sys_log := sys_log g @ [Close fd]\<rparr>)
               else (Some (fd, devid), g)))"

definition has_device_id :: "'x engine \<Rightarrow> int \<Rightarrow> bool" where
  "has_device_id g i = list_ex (\<lambda>d. dev_id d = i) (devices g)"

text \<open>
  \<open>add_device_fd\<close> stores at \<open>devices[ndevi]\<close> with no check of \<open>ndevi\<close> against
  \<open>MAX_DEVICES\<close> and registers the address of that slot as the readiness tag.
  Here the list grows by one entry, also past 128 entries where the C code
  writes beyond the array, and the log keeps the handle, not the tag.
\<close>

definition add_device_fd :: "'x engine \<Rightarrow> int \<Rightarrow> int \<Rightarrow> string \<Rightarrow> 'x engine" where
  "add_device_fd g fd devid path =
     g\<lparr>devices := devices g @ [\<lparr>dev_fd = fd, dev_id = devid, dev_path = take 127 path\<rparr>],
       sys_log := sys_log g @ [EpollAdd fd]\<rparr>"

text \<open>Index of the first registered device with the given id.\<close>

fun find_device :: "device list \<Rightarrow> int \<Rightarrow> nat \<Rightarrow> nat option" where
  "find_device [] devid i = None"
| "find_device (d # ds) devid i = (if dev_id d = devid then Some i else find_device ds devid (i + 1))"

text \<open>\<open>g.devices[i] = g.devices[g.ndevi-1]; g.ndevi--;\<close>\<close>

definition compact_at :: "device list \<Rightarrow> nat \<Rightarrow> device list" where
  "compact_at ds i = butlast (ds[i := ds ! (length ds - 1)])"

definition remove_device_by_id :: "'x engine \<Rightarrow> int \<Rightarrow> 'x engine" where
  "remove_device_by_id g devid =
     (case find_device (devices g) devid 0 of
        None \<Rightarrow> g
      | Some i \<Rightarrow>
          g\<lparr>sys_log := sys_log g @ [EpollDel (dev_fd (devices g ! i)), Close (dev_fd (devices g ! i))],
            devices := compact_at (devices g) i\<rparr>)"

text \<open>\<open>snprintf(path, sizeof(path), "/dev/input/event%d", i)\<close>\<close>

definition scan_path :: "nat \<Rightarrow> string" where
  "scan_path i = ''/dev/input/event'' @ dec_string i"

definition scan_step :: "os_env \<Rightarrow> abi \<Rightarrow> nat \<Rightarrow> 'x engine \<Rightarrow> 'x engine" where
  "scan_step env a i g =
     (let path = scan_path i in
      if has_device_id g (int i) then g
      else case open_device_filtered env a g path of
             (None, g1) \<Rightarrow> g1
           | (Some (fd, devid), g1) \<Rightarrow> add_device_fd g1 fd (if devid \<ge> 0 then devid else int i) path)"

definition scan_devices :: "os_env \<Rightarrow> abi \<Rightarrow> 'x engine \<Rightarrow> 'x engine" where
  "scan_devices env a g = fold (scan_step env a) [0..<MAX_DEVICES] g"

subsection \<open>Hotplug\<close>

text \<open>
  One notification of the hotplug watcher: the three mask bits the engine tests,
  \<open>len\<close> and \<open>name\<close>.  \<open>t\<close> is the value of \<open>now_ns()\<close>.
\<close>

record inotify_event =
  in_create :: bool
  in_moved_to :: bool
  in_delete :: bool
  ie_len :: nat
  ie_name :: string

definition handle_inotify_one :: "os_env \<Rightarrow> abi \<Rightarrow> c_llong \<Rightarrow> 'x engine \<Rightarrow> inotify_event \<Rightarrow> 'x engine" where
  "handle_inotify_one env a t g ie =
     (let g1 =
        (if (in_create ie \<or> in_moved_to ie) \<and> ie_len ie > 0
         then if take 5 (ie_name ie) = ''event''
              then (let path = take 127 (''/dev/input/'' @ ie_name ie) in
                    case open_device_filtered env a g path of
                      (Some (fd, devid), g') \<Rightarrow> add_device_fd g' fd devid path
                    | (None, g') \<Rightarrow> g'\<lparr>rescan_until_ns := t + 3000000000\<rparr>)
              else g
         else g)
      in if in_delete ie \<and> ie_len ie > 0
         then if take 5 (ie_name ie) = ''event''
              then remove_device_by_id g1 (atoi (drop 5 (ie_name ie)))
              else g1
         else g1)"

definition handle_inotify_event :: "os_env \<Rightarrow> abi \<Rightarrow> c_llong \<Rightarrow> 'x engine \<Rightarrow> inotify_event list \<Rightarrow> 'x engine" where
  "handle_inotify_event env a t g ies = foldl (handle_inotify_one env a t) g ies"

section \<open>Public surface\<close>

text \<open>
  \<open>g\<close> has static storage, so the program starts with every field zero.
\<close>

definition engine_static :: "abi \<Rightarrow> 'x engine" where
  "engine_static a =
     \<lparr>initialized = False, epoll_fd = 0, inotify_fd = 0, thread = False, stop = False,
      devices = [], queue = ring_init ni_event_zero, cb = None, dev_filter = None,
      rescan_until_ns = 0, mice_enabled = False, mice_fd = 0, mice_thread = False,
      xkb_enabled = False, xkb_state = None, xkb_rules = [], xkb_model = [], xkb_layout = [],
      xkb_variant = [], xkb_options = [],
      key_queue = keyring_init (ni_key_event_zero a), key_cb = None,
      delivered = [], key_delivered = [], sys_log = []\<rparr>"

text \<open>
  \<open>memset(&g, 0, sizeof(g))\<close> followed by the two ring initialisations; the
  observation logs are kept.
\<close>

definition engine_zero :: "abi \<Rightarrow> 'x engine \<Rightarrow> 'x engine" where
  "engine_zero a g =
     \<lparr>initialized = False, epoll_fd = 0, inotify_fd = 0, thread = False, stop = False,
      devices = [], queue = ring_init ni_event_zero, cb = None, dev_filter = None,
      rescan_until_ns = 0, mice_enabled = False, mice_fd = 0, mice_thread = False,
      xkb_enabled = False, xkb_state = None, xkb_rules = [], xkb_model = [], xkb_layout = [],
      xkb_variant = [], xkb_options = [],
      key_queue = keyring_init (ni_key_event_zero a), key_cb = None,
      delivered = delivered g, key_delivered = key_delivered g, sys_log = sys_log g\<rparr>"

definition ni_init :: "os_env \<Rightarrow> abi \<Rightarrow> 'x engine \<Rightarrow> int \<Rightarrow> int \<times> 'x engine" where
  "ni_init env a g flags =
     (if flags \<noteq> 0 then (- 1, g)
      else if initialized g then (0, g)
      else
        let g1 = (engine_zero a g)\<lparr>epoll_fd := os_epoll_create env, mice_fd := - 1\<rparr> in
        if epoll_fd g1 < 0 then (- 1, g1)
        else
          let g2 = g1\<lparr>inotify_fd := os_inotify_init env\<rparr>;
              g3 = (if inotify_fd g2 \<ge> 0 then g2\<lparr>sys_log := sys_log g2 @ [EpollAdd (inotify_fd g2)]\<rparr> else g2);
              g4 = scan_devices env a g3;
              g5 = g4\<lparr>stop := False\<rparr>
          in if have_xkbcommon a
             then
               let g6 = g5\<lparr>xkb_rules := (if xkb_rules g5 = [] then ''evdev'' else xkb_rules g5)\<rparr>;
                   g7 = g6\<lparr>xkb_model := (if xkb_model g6 = [] then ''pc105'' else xkb_model g6)\<rparr>;
                   g8 = g7\<lparr>xkb_layout := (if xkb_layout g7 = [] then ''us'' else xkb_layout g7)\<rparr>
               in if \<not> os_worker_thread_ok env then (- 1, g8)
                  else
                    let g9 = g8\<lparr>thread := True\<rparr>;
                        g10 = (if mice_enabled g9
                               then (if \<not> os_mice_thread_ok env then g9\<lparr>mice_enabled := False\<rparr>
                                     else g9\<lparr>mice_thread := True\<rparr>)
                               else g9)
                    in (0, g10\<lparr>initialized := True\<rparr>)
             else (- 1, g5))"

text \<open>
  The loop of \<open>ni_set_device_filter\<close> over \<open>i = ndevi - 1, \<dots>, 0\<close>; the
  counter is \<open>i + 1\<close>.
\<close>

fun filter_reeval :: "os_env \<Rightarrow> abi \<Rightarrow> nat \<Rightarrow> 'x engine \<Rightarrow> 'x engine" where
  "filter_reeval env a 0 g = g"
| "filter_reeval env a (Suc i) g =
     (let fd = dev_fd (devices g ! i);
          info = (fill_device_info env a fd (dev_path (devices g ! i)))\<lparr>info_id := dev_id (devices g ! i)\<rparr>;
          keep = (case dev_filter g of Some f \<Rightarrow> f info | None \<Rightarrow> True)
      in filter_reeval env a i
           (if \<not> keep
            then g\<lparr>sys_log := sys_log g @ [EpollDel fd, Close fd],
                   devices := compact_at (devices g) i\<rparr>
            else g))"

definition ni_set_device_filter :: "os_env \<Rightarrow> abi \<Rightarrow> 'x engine \<Rightarrow> (ni_device_info \<Rightarrow> bool) option \<Rightarrow> int \<times> 'x engine" where
  "ni_set_device_filter env a g f =
     (let g1 = g\<lparr>dev_filter := f\<rparr> in
      if \<not> initialized g1 then (0, g1)
      else (0, scan_devices env a (filter_reeval env a (length (devices g1)) g1)))"

definition ni_device_count :: "'x engine \<Rightarrow> int" where
  "ni_device_count g = ndevi g"

definition ni_register_callback :: "'x engine \<Rightarrow> sink option \<Rightarrow> int \<Rightarrow> int \<times> 'x engine" where
  "ni_register_callback g c flags =
     (if \<not> initialized g \<or> flags \<noteq> 0 then (- 1, g) else (0, g\<lparr>cb := c\<rparr>))"

text \<open>
  \<open>evts\<close> is \<open>None\<close> for a null pointer.  The result holds the return value, the
  records written to the caller's buffer, and the state.
\<close>

definition ni_poll :: "'x engine \<Rightarrow> ni_event list option \<Rightarrow> int \<Rightarrow> int \<times> ni_event list \<times> 'x engine" where
  "ni_poll g evts max_events =
     (if \<not> initialized g \<or> evts = None \<or> max_events \<le> 0 then (- 1, [], g)
      else case ring_pop_many (queue g) max_events of
             (n, out, q) \<Rightarrow> (n, out, g\<lparr>queue := q\<rparr>))"

definition ni_poll_key_events :: "'x engine \<Rightarrow> ni_key_event list option \<Rightarrow> int \<Rightarrow> int \<times> ni_key_event list \<times> 'x engine" where
  "ni_poll_key_events g evts max_events =
     (if \<not> initialized g \<or> evts = None \<or> max_events \<le> 0 then (- 1, [], g)
      else case keyring_pop_many (key_queue g) max_events of
             (n, out, q) \<Rightarrow> (n, out, g\<lparr>key_queue := q\<rparr>))"

definition ni_register_key_callback :: "'x engine \<Rightarrow> sink option \<Rightarrow> int \<Rightarrow> int \<times> 'x engine" where
  "ni_register_key_callback g c flags =
     (if \<not> initialized g then (- 1, g) else (0, g\<lparr>key_cb := c\<rparr>))"

text \<open>
  \<open>ni_enable_mice\<close>; \<open>env\<close> says whether the reader thread can be started.
\<close>

definition ni_enable_mice :: "os_env \<Rightarrow> 'x engine \<Rightarrow> int \<Rightarrow> int \<times> 'x engine" where
  "ni_enable_mice env g enabled =
     (let g1 = g\<lparr>mice_enabled := (enabled \<noteq> 0)\<rparr> in
      if \<not> initialized g1 then (0, g1)
      else if enabled \<noteq> 0 \<and> \<not> mice_thread g1
           then (if \<not> os_mice_thread_ok env then (- 1, g1\<lparr>mice_enabled := False\<rparr>)
                 else (0, g1\<lparr>mice_thread := True\<rparr>))
           else (0, g1))"

section \<open>Keymap interpreter\<close>

text \<open>
  The keymap library (xkbcommon) is outside the repository, so its operations
  are parameters: \<open>'x\<close> is the library's key state, \<open>xkb_state_update_key\<close>
  takes the direction as \<open>True\<close> for \<open>XKB_KEY_DOWN\<close>, and
  \<open>xkb_state_key_get_utf8 st code buf\<close> is the caller's buffer after the call.
  \<open>xkb_state_new_from_names\<close> stands for the chain
  \<open>xkb_context_new\<close>, \<open>xkb_keymap_new_from_names\<close>, \<open>xkb_state_new\<close> on
  rules, model, layout, variant and options; \<open>None\<close> when one of them fails.
\<close>

datatype xkb_mod_name = XKB_MOD_NAME_SHIFT | XKB_MOD_NAME_CTRL | XKB_MOD_NAME_ALT | XKB_MOD_NAME_LOGO

record 'x xkb_lib =
  xkb_state_update_key :: "'x \<Rightarrow> 32 word \<Rightarrow> bool \<Rightarrow> 'x"
  xkb_state_mod_name_is_active :: "'x \<Rightarrow> xkb_mod_name \<Rightarrow> bool"
  xkb_state_key_get_one_sym :: "'x \<Rightarrow> 32 word \<Rightarrow> 32 word"
  xkb_state_key_get_utf8 :: "'x \<Rightarrow> 32 word \<Rightarrow> byte list \<Rightarrow> byte list"
  xkb_state_new_from_names :: "string \<times> string \<times> string \<times> string \<times> string \<Rightarrow> 'x option"

definition mods_mask_from_state :: "'x xkb_lib \<Rightarrow> abi \<Rightarrow> 'x engine \<Rightarrow> 32 word" where
  "mods_mask_from_state lib a g =
     (if \<not> have_xkbcommon a then 0
      else case xkb_state g of
             None \<Rightarrow> 0
           | Some st \<Rightarrow>
               (let m0 = 0;
                    m1 = (if xkb_state_mod_name_is_active lib st XKB_MOD_NAME_SHIFT then m0 OR push_bit 0 1 else m0);
                    m2 = (if xkb_state_mod_name_is_active lib st XKB_MOD_NAME_CTRL then m1 OR push_bit 1 1 else m1);
                    m3 = (if xkb_state_mod_name_is_active lib st XKB_MOD_NAME_ALT then m2 OR push_bit 2 1 else m2)
                in if xkb_state_mod_name_is_active lib st XKB_MOD_NAME_LOGO then m3 OR push_bit 3 1 else m3))"

definition maybe_emit_key_event :: "'x xkb_lib \<Rightarrow> abi \<Rightarrow> 'x engine \<Rightarrow> ni_event \<Rightarrow> 'x engine" where
  "maybe_emit_key_event lib a g base =
     (if \<not> xkb_enabled g then g
      else if \<not> have_xkbcommon a then g
      else if ev_type base \<noteq> NI_EV_KEY then g
      else
        let xkb_code = (word_of_int (ev_code base) :: 32 word) + 8 in
        case xkb_state g of
          None \<Rightarrow> g
        | Some st \<Rightarrow>
            let st1 = xkb_state_update_key lib st xkb_code (ev_value base \<noteq> 0);
                g1 = g\<lparr>xkb_state := Some st1\<rparr>;
                kev0 = (ni_key_event_zero a)\<lparr>kev_device_id := ev_device_id base,
                         kev_timestamp_ns := ev_timestamp_ns base,
                         kev_down := (if ev_value base \<noteq> 0 then 1 else 0)\<rparr>;
                kev1 = kev0\<lparr>kev_mods := mods_mask_from_state lib a g1\<rparr>;
                kev2 = kev1\<lparr>kev_keysym := xkb_state_key_get_one_sym lib st1 xkb_code\<rparr>;
                kev3 = kev2\<lparr>kev_text := (kev_text kev2)[0 := 0]\<rparr>;
                kev4 = (if kev_down kev3 \<noteq> 0
                        then kev3\<lparr>kev_text := xkb_state_key_get_utf8 lib st1 xkb_code (kev_text kev3)\<rparr>
                        else kev3)
            in if key_cb g1 \<noteq> None then g1\<lparr>key_delivered := key_delivered g1 @ [kev4]\<rparr>
               else g1\<lparr>key_queue := keyring_push (key_queue g1) kev4\<rparr>)"

definition rebuild_xkb_keymap :: "'x xkb_lib \<Rightarrow> abi \<Rightarrow> 'x engine \<Rightarrow> int \<times> 'x engine" where
  "rebuild_xkb_keymap lib a g =
     (if \<not> have_xkbcommon a then (- 1, g)
      else if \<not> xkb_enabled g then (0, g)
      else case xkb_state_new_from_names lib
                  (xkb_rules g, xkb_model g, xkb_layout g, xkb_variant g, xkb_options g) of
             None \<Rightarrow> (- 1, g)
           | Some st \<Rightarrow> (0, g\<lparr>xkb_state := Some st\<rparr>))"

definition ni_enable_xkb :: "'x xkb_lib \<Rightarrow> abi \<Rightarrow> 'x engine \<Rightarrow> int \<Rightarrow> int \<times> 'x engine" where
  "ni_enable_xkb lib a g enabled =
     (let g1 = g\<lparr>xkb_enabled := (enabled \<noteq> 0)\<rparr> in
      if \<not> have_xkbcommon a then (- 1, g1)
      else if xkb_enabled g1 then rebuild_xkb_keymap lib a g1
      else (0, g1\<lparr>xkb_state := None\<rparr>))"

text \<open>
  \<open>ni_set_xkb_names\<close>: an argument is \<open>None\<close> for a null pointer;
  \<open>snprintf(dst, size, "%s", src)\<close> keeps \<open>size - 1\<close> characters.
\<close>

definition ni_set_xkb_names ::
  "'x xkb_lib \<Rightarrow> abi \<Rightarrow> 'x engine \<Rightarrow> string option \<Rightarrow> string option \<Rightarrow> string option \<Rightarrow> string option \<Rightarrow> string option
    \<Rightarrow> int \<times> 'x engine" where
  "ni_set_xkb_names lib a g rules model layout variant options =
     (if \<not> have_xkbcommon a then (- 1, g)
      else
        let g1 = (case rules of Some s \<Rightarrow> g\<lparr>xkb_rules := take 31 s\<rparr> | None \<Rightarrow> g);
            g2 = (case model of Some s \<Rightarrow> g1\<lparr>xkb_model := take 31 s\<rparr> | None \<Rightarrow> g1);
            g3 = (case layout of Some s \<Rightarrow> g2\<lparr>xkb_layout := take 63 s\<rparr> | None \<Rightarrow> g2);
            g4 = (case variant of Some s \<Rightarrow> g3\<lparr>xkb_variant := take 31 s\<rparr> | None \<Rightarrow> g3);
            g5 = (case options of Some s \<Rightarrow> g4\<lparr>xkb_options := take 127 s\<rparr> | None \<Rightarrow> g4)
        in if xkb_enabled g5 then rebuild_xkb_keymap lib a g5 else (0, g5))"

section \<open>Acquisition worker\<close>

text \<open>
  \<open>struct input_event\<close> as the kernel delivers it on a 64-bit host: two 64-bit
  time fields, 16-bit type and code, 32-bit signed value.
\<close>

record input_event =
  iev_tv_sec :: "64 word"
  iev_tv_usec :: "64 word"
  iev_type :: "16 word"
  iev_code :: "16 word"
  iev_value :: "32 word"

text \<open>The assignments to \<open>ev\<close> in the read loop of \<open>worker\<close>.\<close>

definition decode_event :: "int \<Rightarrow> input_event \<Rightarrow> ni_event" where
  "decode_event devid iev =
     ni_event_zero\<lparr>ev_device_id := devid,
       ev_type := uint (iev_type iev),
       ev_code := uint (iev_code iev),
       ev_value := sint (iev_value iev),
       ev_timestamp_ns := iev_tv_sec iev * 1000000000 + iev_tv_usec iev * 1000\<rparr>"

definition worker_on_packet :: "'x xkb_lib \<Rightarrow> abi \<Rightarrow> int \<Rightarrow> 'x engine \<Rightarrow> input_event \<Rightarrow> 'x engine" where
  "worker_on_packet lib a devid g iev =
     (let e = decode_event devid iev;
          g1 = (if cb g \<noteq> None then g\<lparr>delivered := delivered g @ [e]\<rparr>
                else g\<lparr>queue := ring_push (queue g) e\<rparr>)
      in maybe_emit_key_event lib a g1 e)"


section \<open>What the ring holds\<close>

definition ring_ok :: "'a ringbuf \<Rightarrow> bool" where
  "ring_ok r \<longleftrightarrow> length (ev r) = RING_SIZE \<and> head r < RING_SIZE \<and> tail r < RING_SIZE"

definition ring_count :: "'a ringbuf \<Rightarrow> nat" where
  "ring_count r = (head r + RING_SIZE - tail r) mod RING_SIZE"

definition ring_contents :: "'a ringbuf \<Rightarrow> 'a list" where
  "ring_contents r = map (\<lambda>i. ev r ! ((tail r + i) mod RING_SIZE)) [0..<ring_count r]"

section \<open>Concrete instances\<close>

text \<open>
  Values for the parameters of the model, used to evaluate it: a choice for the
  undeclared constants, a keymap library that knows one key (code 24, the key
  \<^emph>\<open>Q\<close> after the offset of 8), a running engine with nothing registered, and
  a KEY packet.
\<close>

definition abi_ex :: abi where
  "abi_ex = \<lparr>NI_EV_MOUSE = 100, NI_MOUSE_BUTTON = 1, NI_MOUSE_MOVE = 2, text_size = 32,
     info_path_size = 128, info_name_size = 128, have_xkbcommon = True\<rparr>"

definition xkb_ex :: "unit xkb_lib" where
  "xkb_ex = \<lparr>xkb_state_update_key = (\<lambda>st c d. st),
     xkb_state_mod_name_is_active = (\<lambda>st m. False),
     xkb_state_key_get_one_sym = (\<lambda>st c. if c = 24 then 113 else 0),
     xkb_state_key_get_utf8 = (\<lambda>st c buf. if c = 24 then buf[0 := 113, 1 := 0] else buf[0 := 0]),
     xkb_state_new_from_names = (\<lambda>names. Some ())\<rparr>"

definition engine_ex :: "unit engine" where
  "engine_ex = (engine_static abi_ex)\<lparr>initialized := True, epoll_fd := 3, inotify_fd := 4, thread := True\<rparr>"


definition rel_packet :: input_event where
  "rel_packet = \<lparr>iev_tv_sec = 1755302400, iev_tv_usec = 999999, iev_type = 2, iev_code = 1, iev_value = - 5\<rparr>"

text \<open>
  The KEY events for one button code among a list of events, the REL events
  for the wheel among a list of events, and the running engine with a sink
  registered.
\<close>

definition button_events :: "int \<Rightarrow> ni_event list \<Rightarrow> ni_event list" where
  "button_events code es = filter (\<lambda>e. ev_type e = NI_EV_KEY \<and> ev_code e = code) es"

definition wheel_events :: "ni_event list \<Rightarrow> ni_event list" where
  "wheel_events es = filter (\<lambda>e. ev_type e = NI_EV_REL \<and> ev_code e = NI_REL_WHEEL) es"

definition engine_cb_ex :: "unit engine" where
  "engine_cb_ex = engine_ex\<lparr>cb := Some 1\<rparr>"

text \<open>
  The running engine with the keymap enabled, and the event for a press of the
  key \<^emph>\<open>Q\<close>.
\<close>

definition engine_xkb_ex :: "unit engine" where
  "engine_xkb_ex = engine_ex\<lparr>xkb_enabled := True, xkb_state := Some (), xkb_rules := ''evdev'',
     xkb_model := ''pc105'', xkb_layout := ''us''\<rparr>"

definition key_q_press :: ni_event where
  "key_q_press = ni_event_zero\<lparr>ev_device_id := 3, ev_type := 1, ev_code := 16, ev_value := 1,
     ev_timestamp_ns := 100000\<rparr>"

text \<open>
  A host with two device nodes, \<open>event0\<close> (a keyboard) and \<open>event1\<close> (a mouse),
  three acceptance predicates, the engine after \<open>ni_init\<close> on that host, the
  same engine after a filter that keeps keyboards only, and a hotplug
  notification for \<open>event0\<close>.
\<close>

definition env_two :: os_env where
  "env_two =
     \<lparr>os_open = (\<lambda>p. if p = scan_path 0 then Some 5 else if p = scan_path 1 then Some 6 else None),
      os_ioctl_id = (\<lambda>fd. None),
      os_ioctl_name = (\<lambda>fd. if fd = 5 then Some ''test-keyboard'' else if fd = 6 then Some ''test-mouse'' else None),
      os_epoll_create = 3, os_inotify_init = 4, os_worker_thread_ok = True, os_mice_thread_ok = True\<rparr>"



definition reject_all :: "ni_device_info \<Rightarrow> bool" where
  "reject_all info \<longleftrightarrow> False"

definition engine_two_ex :: "unit engine" where
  "engine_two_ex = snd (ni_init env_two abi_ex (engine_static abi_ex) 0)"


definition hotplug_event0 :: inotify_event where
  "hotplug_event0 = \<lparr>in_create = False, in_moved_to = True, in_delete = False, ie_len = 16, ie_name = ''event0''\<rparr>"

section \<open>Properties of the bounded ring\<close>

lemma RING_SIZE_pos: "1 < RING_SIZE" by (simp add: RING_SIZE_def)

lemma ring_count_less: "ring_count r < RING_SIZE"
  using RING_SIZE_pos by (simp add: ring_count_def)

lemma ring_count_cases:
  "ring_ok r \<Longrightarrow> ring_count r = (if tail r \<le> head r then head r - tail r else head r + RING_SIZE - tail r)"
  by (auto simp: ring_ok_def ring_count_def mod_if)

lemma ring_full_iff:
  "ring_ok r \<Longrightarrow> (head r + 1) mod RING_SIZE = tail r \<longleftrightarrow> ring_count r = RING_SIZE - 1"
  using RING_SIZE_pos
  by (auto simp: ring_count_cases ring_ok_def mod_if)

lemma ring_empty_iff:
  "ring_ok r \<Longrightarrow> tail r = head r \<longleftrightarrow> ring_count r = 0"
  by (auto simp: ring_count_cases ring_ok_def)

lemma ring_head_slot: "ring_ok r \<Longrightarrow> (tail r + ring_count r) mod RING_SIZE = head r"
  by (auto simp: ring_count_cases ring_ok_def)

lemma ring_slot_neq_head:
  assumes "ring_ok r" "i < ring_count r"
  shows "(tail r + i) mod RING_SIZE \<noteq> head r"
proof (cases "tail r \<le> head r")
  case True
  then have "tail r + i < head r" using assms by (simp add: ring_count_cases)
  moreover have "head r < RING_SIZE" using assms(1) by (simp add: ring_ok_def)
  ultimately show ?thesis by simp
next
  case False
  then have b: "tail r + i < head r + RING_SIZE" using assms by (simp add: ring_count_cases)
  show ?thesis
  proof (cases "tail r + i < RING_SIZE")
    case True
    then show ?thesis using False by simp
  next
    case False
    have h: "head r < RING_SIZE" using assms(1) by (simp add: ring_ok_def)
    have "tail r + i - RING_SIZE < RING_SIZE" using b h by arith
    then have "(tail r + i) mod RING_SIZE = tail r + i - RING_SIZE"
      using False by (simp add: le_mod_geq)
    then show ?thesis using b False by arith
  qed
qed

lemma ring_push_full: "ring_ok r \<Longrightarrow> ring_count r = RING_SIZE - 1 \<Longrightarrow> ring_push r e = r"
  using ring_full_iff[of r] by (simp add: ring_push_def)

lemma ring_push_ok: "ring_ok r \<Longrightarrow> ring_ok (ring_push r e)"
  using RING_SIZE_pos by (auto simp: ring_ok_def ring_push_def Let_def)

lemma ring_push_count:
  "ring_ok r \<Longrightarrow> ring_count r < RING_SIZE - 1 \<Longrightarrow> ring_count (ring_push r e) = Suc (ring_count r)"
  using ring_full_iff[of r] RING_SIZE_pos
  by (auto simp: ring_push_def Let_def ring_count_def ring_ok_def mod_if split: if_splits)

lemma ring_push_contents:
  assumes "ring_ok r" "ring_count r < RING_SIZE - 1"
  shows "ring_contents (ring_push r e) = ring_contents r @ [e]"
proof -
  let ?r' = "ring_push r e"
  have nf: "(head r + 1) mod RING_SIZE \<noteq> tail r"
    using assms ring_full_iff[of r] by simp
  have ev': "ev ?r' = (ev r)[head r := e]" and tl': "tail ?r' = tail r"
    using nf by (simp_all add: ring_push_def Let_def)
  have cnt: "ring_count ?r' = Suc (ring_count r)"
    using assms by (rule ring_push_count)
  have old: "(ev r)[head r := e] ! ((tail r + i) mod RING_SIZE) = ev r ! ((tail r + i) mod RING_SIZE)"
    if "i < ring_count r" for i
    using that ring_slot_neq_head[OF assms(1) that] by simp
  have new: "(ev r)[head r := e] ! ((tail r + ring_count r) mod RING_SIZE) = e"
    using assms(1) ring_head_slot[OF assms(1)] by (simp add: ring_ok_def)
  show ?thesis
    unfolding ring_contents_def cnt ev' tl' using old new by simp
qed

lemma ring_pop_step:
  assumes "ring_ok r" "tail r \<noteq> head r"
  shows "ring_ok (r\<lparr>tail := (tail r + 1) mod RING_SIZE\<rparr>)"
    and "ring_contents r = ev r ! tail r # ring_contents (r\<lparr>tail := (tail r + 1) mod RING_SIZE\<rparr>)"
proof -
  let ?r' = "r\<lparr>tail := (tail r + 1) mod RING_SIZE\<rparr>"
  show ok: "ring_ok ?r'" using assms RING_SIZE_pos by (simp add: ring_ok_def)
  have cnt: "ring_count r = Suc (ring_count ?r')"
    using assms RING_SIZE_pos by (auto simp: ring_count_def ring_ok_def mod_if)
  have sh: "(tail ?r' + i) mod RING_SIZE = (tail r + Suc i) mod RING_SIZE" for i
    by (simp add: mod_add_left_eq)
  have t0: "(tail r + 0) mod RING_SIZE = tail r"
    using assms(1) by (simp add: ring_ok_def)
  have "ring_contents r = map (\<lambda>i. ev r ! ((tail r + i) mod RING_SIZE)) (0 # map Suc [0..<ring_count ?r'])"
    unfolding ring_contents_def cnt by (simp only: upt_conv_Cons zero_less_Suc if_True map_Suc_upt)
  also have "\<dots> = ev r ! tail r # ring_contents ?r'"
    unfolding ring_contents_def using t0 sh by (simp add: comp_def)
  finally show "ring_contents r = ev r ! tail r # ring_contents ?r'" .
qed

lemma ring_pop_loop_spec:
  "ring_ok r \<Longrightarrow>
   fst (ring_pop_loop r out n max_n) = n + int (min (nat (max_n - n)) (ring_count r))
   \<and> fst (snd (ring_pop_loop r out n max_n)) = out @ take (nat (max_n - n)) (ring_contents r)
   \<and> ring_ok (snd (snd (ring_pop_loop r out n max_n)))
   \<and> ring_contents (snd (snd (ring_pop_loop r out n max_n))) = drop (nat (max_n - n)) (ring_contents r)"
proof (induction r out n max_n rule: ring_pop_loop.induct)
  case (1 r out n max_n)
  show ?case
  proof (cases "n < max_n \<and> tail r \<noteq> head r")
    case True
    let ?r' = "r\<lparr>tail := (tail r + 1) mod RING_SIZE\<rparr>"
    note st = ring_pop_step[OF "1.prems"] 
    have ne: "tail r \<noteq> head r" using True by simp
    note ih = "1.IH"[OF True st(1)[OF ne]]
    have cnt: "ring_count r = Suc (ring_count ?r')"
      using st(2)[OF ne] by (metis length_Cons length_map length_upt diff_zero ring_contents_def)
    have m: "nat (max_n - n) = Suc (nat (max_n - (n + 1)))" using True by auto
    have unf: "ring_pop_loop r out n max_n = ring_pop_loop ?r' (out @ [ev r ! tail r]) (n + 1) max_n"
      using True by (subst ring_pop_loop.simps) simp
    show ?thesis
      unfolding unf using ih st(2)[OF ne] cnt m by (simp del: ring_pop_loop.simps)
  next
    case False
    have "nat (max_n - n) = 0 \<or> ring_count r = 0"
      using False ring_empty_iff[OF "1.prems"] by auto
    then have e: "take (nat (max_n - n)) (ring_contents r) = [] \<and> drop (nat (max_n - n)) (ring_contents r) = ring_contents r
       \<and> min (nat (max_n - n)) (ring_count r) = 0"
      by (auto simp: ring_contents_def)
    have unf: "ring_pop_loop r out n max_n = (n, out, r)"
      using False by (subst ring_pop_loop.simps) auto
    show ?thesis
      unfolding unf using e "1.prems" by simp
  qed
qed

lemma ring_contents_length: "length (ring_contents r) = ring_count r"
  by (simp add: ring_contents_def)

lemma ring_init_ok: "ring_ok (ring_init z)"
  by (simp add: ring_ok_def ring_init_def RING_SIZE_def)

lemma ring_init_contents: "ring_contents (ring_init z) = []"
  by (simp add: ring_contents_def ring_count_def ring_init_def)

lemma ring_pushes:
  "ring_ok r \<Longrightarrow>
   ring_ok (foldl ring_push r es) \<and>
   ring_contents (foldl ring_push r es) = ring_contents r @ take (RING_SIZE - 1 - ring_count r) es"
proof (induction es arbitrary: r)
  case Nil
  then show ?case by simp
next
  case (Cons e es)
  show ?case
  proof (cases "ring_count r < RING_SIZE - 1")
    case True
    have c: "ring_count (ring_push r e) = Suc (ring_count r)"
      using Cons.prems True by (rule ring_push_count)
    obtain k where d: "RING_SIZE - 1 - ring_count r = Suc k"
      using True by (cases "RING_SIZE - 1 - ring_count r") auto
    then have d': "RING_SIZE - 1 - Suc (ring_count r) = k" by simp
    have ih: "ring_ok (foldl ring_push (ring_push r e) es) \<and>
       ring_contents (foldl ring_push (ring_push r e) es) = (ring_contents r @ [e]) @ take k es"
      using Cons.IH[OF ring_push_ok[OF Cons.prems, of e]]
      unfolding ring_push_contents[OF Cons.prems True, of e] c d' .
    show ?thesis
      unfolding d using ih by simp
  next
    case False
    then have f: "ring_count r = RING_SIZE - 1"
      using ring_count_less[of r] by simp
    show ?thesis
      using Cons.IH[OF Cons.prems] ring_push_full[OF Cons.prems f, of e] f by simp
  qed
qed

lemma ring_pop_many_spec:
  assumes "ring_ok r"
  shows "fst (ring_pop_many r max_n) = int (min (nat max_n) (ring_count r))"
    and "fst (snd (ring_pop_many r max_n)) = take (nat max_n) (ring_contents r)"
    and "ring_ok (snd (snd (ring_pop_many r max_n)))"
    and "ring_contents (snd (snd (ring_pop_many r max_n))) = drop (nat max_n) (ring_contents r)"
  using ring_pop_loop_spec[OF assms, of "[]" 0 max_n] by (simp_all add: ring_pop_many_def)

lemma ring_pop_loop_count:
  "fst (ring_pop_loop r out n max_n) - n
     = int (length (fst (snd (ring_pop_loop r out n max_n)))) - int (length out)
   \<and> n \<le> fst (ring_pop_loop r out n max_n)"
proof (induction r out n max_n rule: ring_pop_loop.induct)
  case (1 r out n max_n)
  show ?case
  proof (cases "n < max_n \<and> tail r \<noteq> head r")
    case True
    have unf: "ring_pop_loop r out n max_n
        = ring_pop_loop (r\<lparr>tail := (tail r + 1) mod RING_SIZE\<rparr>) (out @ [ev r ! tail r]) (n + 1) max_n"
      using True by (subst ring_pop_loop.simps) simp
    show ?thesis unfolding unf using "1.IH"[OF True] by simp
  next
    case False
    have unf: "ring_pop_loop r out n max_n = (n, out, r)"
      using False by (subst ring_pop_loop.simps) auto
    show ?thesis unfolding unf by simp
  qed
qed

lemma ring_fill_pop:
  assumes "0 \<le> max_n"
  shows "fst (ring_pop_many (foldl ring_push (ring_init z) es) max_n)
           = int (min (nat max_n) (min (RING_SIZE - 1) (length es)))"
    and "fst (snd (ring_pop_many (foldl ring_push (ring_init z) es) max_n))
           = take (nat max_n) (take (RING_SIZE - 1) es)"
proof -
  let ?r = "foldl ring_push (ring_init z) es"
  have ok: "ring_ok ?r" and c: "ring_contents ?r = take (RING_SIZE - 1) es"
    using ring_pushes[OF ring_init_ok, of z es]
    by (simp_all add: ring_init_contents flip: ring_contents_length)
  have n: "ring_count ?r = min (RING_SIZE - 1) (length es)"
    using c ring_contents_length[of ?r] by (simp add: min.commute)
  show "fst (ring_pop_many ?r max_n) = int (min (nat max_n) (min (RING_SIZE - 1) (length es)))"
    using ring_pop_many_spec(1)[OF ok] n by simp
  show "fst (snd (ring_pop_many ?r max_n)) = take (nat max_n) (take (RING_SIZE - 1) es)"
    using ring_pop_many_spec(2)[OF ok] c by simp
qed

lemma ring_fill_pop_from:
  assumes "ring_ok r" "0 \<le> max_n"
  shows "fst (ring_pop_many (foldl ring_push r es) max_n)
           = int (min (nat max_n) (min (RING_SIZE - 1) (ring_count r + length es)))"
    and "fst (snd (ring_pop_many (foldl ring_push r es) max_n))
           = take (nat max_n) (ring_contents r @ take (RING_SIZE - 1 - ring_count r) es)"
proof -
  let ?r = "foldl ring_push r es"
  have ok: "ring_ok ?r"
    and c: "ring_contents ?r = ring_contents r @ take (RING_SIZE - 1 - ring_count r) es"
    using ring_pushes[OF assms(1), of es] by simp_all
  have b: "ring_count r < RING_SIZE" by (rule ring_count_less)
  have "ring_count ?r = ring_count r + min (RING_SIZE - 1 - ring_count r) (length es)"
    using c ring_contents_length[of ?r] ring_contents_length[of r] by (simp add: min.commute)
  also have "\<dots> = min (RING_SIZE - 1) (ring_count r + length es)"
    using b by arith
  finally have n: "ring_count ?r = min (RING_SIZE - 1) (ring_count r + length es)" .
  show "fst (ring_pop_many ?r max_n)
      = int (min (nat max_n) (min (RING_SIZE - 1) (ring_count r + length es)))"
    using ring_pop_many_spec(1)[OF ok] n by simp
  show "fst (snd (ring_pop_many ?r max_n))
      = take (nat max_n) (ring_contents r @ take (RING_SIZE - 1 - ring_count r) es)"
    using ring_pop_many_spec(2)[OF ok] c by simp
qed

lemma ring_empty_contents:
  assumes "ring_ok r" "head r = tail r"
  shows "ring_count r = 0" "ring_contents r = []"
proof -
  show c: "ring_count r = 0" using ring_empty_iff[OF assms(1)] assms(2) by simp
  show "ring_contents r = []" using c by (simp add: ring_contents_def)
qed

lemma ring_overflow_pop_from:
  assumes "ring_ok q" "RING_SIZE - 1 < ring_count q + length es" "int (RING_SIZE - 1) \<le> max_n"
  shows "fst (ring_pop_many (foldl ring_push q es) max_n) = int (RING_SIZE - 1)"
    and "fst (snd (ring_pop_many (foldl ring_push q es) max_n))
           = ring_contents q @ take (RING_SIZE - 1 - ring_count q) es"
proof -
  have m: "0 \<le> max_n" "RING_SIZE - 1 \<le> nat max_n" using assms(3) by auto
  have b: "ring_count q < RING_SIZE" by (rule ring_count_less)
  show "fst (ring_pop_many (foldl ring_push q es) max_n) = int (RING_SIZE - 1)"
    using assms(2) m by (simp add: ring_fill_pop_from(1)[OF assms(1) m(1)] min_def)
  have "length (ring_contents q @ take (RING_SIZE - 1 - ring_count q) es) \<le> RING_SIZE - 1"
    using b by (simp add: ring_contents_length)
  then show "fst (snd (ring_pop_many (foldl ring_push q es) max_n))
           = ring_contents q @ take (RING_SIZE - 1 - ring_count q) es"
    using m(2) unfolding ring_fill_pop_from(2)[OF assms(1) m(1)] by (intro take_all) simp
qed


section \<open>Ring overflow\<close>

text \<open>
  C1.  A push on a full ring drops the incoming event and leaves the ring as it
  was.  The ring is full when it holds \<open>RING_SIZE - 1 = 1023\<close> events: one of the
  1024 slots stays free, since \<open>head = tail\<close> means empty.  So after more than
  1023 pushes into an empty ring, wherever its \<open>head = tail\<close> stands, with no
  pop in between, a \<open>ring_pop_many\<close> with \<open>max\<close> of at least 1023 returns exactly
  1023 records, the first 1023 pushed, in push order.  From a ring that already
  holds events the same pop returns 1023 records too: the events held, oldest
  first, then the earliest pushed ones that still fitted.
\<close>

theorem ring_overflow_keeps_oldest:
  "(ring_ok r \<and> ring_count r = RING_SIZE - 1 \<longrightarrow> ring_push r e = r) \<and>
   (ring_ok q \<and> head q = tail q \<and> RING_SIZE - 1 < length es \<and> int (RING_SIZE - 1) \<le> max_n \<longrightarrow>
      fst (ring_pop_many (foldl ring_push q es) max_n) = int (RING_SIZE - 1) \<and>
      fst (snd (ring_pop_many (foldl ring_push q es) max_n)) = take (RING_SIZE - 1) es) \<and>
   (ring_ok q \<and> RING_SIZE - 1 < ring_count q + length es \<and> int (RING_SIZE - 1) \<le> max_n \<longrightarrow>
      fst (ring_pop_many (foldl ring_push q es) max_n) = int (RING_SIZE - 1) \<and>
      fst (snd (ring_pop_many (foldl ring_push q es) max_n))
        = ring_contents q @ take (RING_SIZE - 1 - ring_count q) es)"
proof (intro conjI impI)
  assume "ring_ok r \<and> ring_count r = RING_SIZE - 1"
  then show "ring_push r e = r" by (simp add: ring_push_full)
next
  assume h: "ring_ok q \<and> head q = tail q \<and> RING_SIZE - 1 < length es \<and> int (RING_SIZE - 1) \<le> max_n"
  then have e: "ring_count q = 0" "ring_contents q = []"
    using ring_empty_contents[of q] by simp_all
  have o: "RING_SIZE - 1 < ring_count q + length es" using h e by simp
  show "fst (ring_pop_many (foldl ring_push q es) max_n) = int (RING_SIZE - 1)"
    using h o by (intro ring_overflow_pop_from(1)) simp_all
  show "fst (snd (ring_pop_many (foldl ring_push q es) max_n)) = take (RING_SIZE - 1) es"
    using h o ring_overflow_pop_from(2)[of q es max_n] by (simp add: e)
next
  assume h: "ring_ok q \<and> RING_SIZE - 1 < ring_count q + length es \<and> int (RING_SIZE - 1) \<le> max_n"
  show "fst (ring_pop_many (foldl ring_push q es) max_n) = int (RING_SIZE - 1)"
    using h by (intro ring_overflow_pop_from(1)) simp_all
  show "fst (snd (ring_pop_many (foldl ring_push q es) max_n))
        = ring_contents q @ take (RING_SIZE - 1 - ring_count q) es"
    using h by (intro ring_overflow_pop_from(2)) simp_all
qed

theorem ring_overflow_keeps_oldest_witness:
  "ring_push \<lparr>ev = replicate 1024 (0::nat), head = 1023, tail = 0\<rparr> 7
     = \<lparr>ev = replicate 1024 0, head = 1023, tail = 0\<rparr> \<and>
   fst (ring_pop_many (foldl ring_push \<lparr>ev = replicate 1024 0, head = 5, tail = 5\<rparr> (map Suc [0..<1500])) 2000)
     = 1023 \<and>
   fst (snd (ring_pop_many (foldl ring_push \<lparr>ev = replicate 1024 0, head = 5, tail = 5\<rparr> (map Suc [0..<1500])) 2000))
     = map Suc [0..<1023] \<and>
   fst (snd (ring_pop_many (foldl ring_push \<lparr>ev = (replicate 1024 0)[1023 := 8, 0 := 9], head = 1, tail = 1023\<rparr>
       (map Suc [0..<1500])) 2000))
     = [8, 9] @ map Suc [0..<1021]"
proof -
  let ?f = "\<lparr>ev = replicate 1024 (0::nat), head = 1023, tail = 0\<rparr>"
  let ?e = "\<lparr>ev = replicate 1024 (0::nat), head = 5, tail = 5\<rparr>"
  let ?p = "\<lparr>ev = (replicate 1024 (0::nat))[1023 := 8, 0 := 9], head = 1, tail = 1023\<rparr>"
  let ?es = "map Suc [0..<1500]"
  have a: "ring_ok ?f \<and> ring_count ?f = RING_SIZE - 1"
    by (simp add: ring_ok_def ring_count_def RING_SIZE_def)
  have b: "ring_ok ?e \<and> head ?e = tail ?e \<and> RING_SIZE - 1 < length ?es \<and> int (RING_SIZE - 1) \<le> 2000"
    by (simp add: ring_ok_def RING_SIZE_def)
  have pc: "ring_count ?p = 2"
    by (simp add: ring_count_def RING_SIZE_def)
  have pl: "ring_contents ?p = [8, 9]"
  proof -
    have u: "[0..<2] = [0, Suc 0]" by (simp add: upt_rec)
    show ?thesis unfolding ring_contents_def pc u by (simp add: RING_SIZE_def)
  qed
  have c: "ring_ok ?p \<and> RING_SIZE - 1 < ring_count ?p + length ?es \<and> int (RING_SIZE - 1) \<le> 2000"
    unfolding pc by (simp add: ring_ok_def RING_SIZE_def)
  have t: "take (RING_SIZE - 1) ?es = map Suc [0..<1023]"
    "take (RING_SIZE - 1 - ring_count ?p) ?es = map Suc [0..<1021]"
    unfolding pc by (simp_all add: RING_SIZE_def take_map)
  note t1 = ring_overflow_keeps_oldest[of ?f 7 ?e ?es 2000]
  note t2 = ring_overflow_keeps_oldest[of ?f 7 ?p ?es 2000]
  have "ring_push ?f 7 = ?f" using t1 a by blast
  moreover have "fst (ring_pop_many (foldl ring_push ?e ?es) 2000) = int (RING_SIZE - 1)"
    "fst (snd (ring_pop_many (foldl ring_push ?e ?es) 2000)) = take (RING_SIZE - 1) ?es"
    using t1 b by blast+
  moreover have "fst (snd (ring_pop_many (foldl ring_push ?p ?es) 2000))
      = ring_contents ?p @ take (RING_SIZE - 1 - ring_count ?p) ?es"
    using t2 c by blast
  ultimately show ?thesis unfolding t pl by (simp add: RING_SIZE_def)
qed

text \<open>
  With capacity read as the 1024 slots of the array, the count returned after
  2048 pushes is not the capacity.
\<close>

theorem ring_overflow_counterexample:
  "fst (ring_pop_many (foldl ring_push (ring_init ni_event_zero) (replicate 2048 ni_event_zero)) 2048)
     = 1023 \<and>
   fst (ring_pop_many (foldl ring_push (ring_init ni_event_zero) (replicate 2048 ni_event_zero)) 2048)
     \<noteq> int RING_SIZE"
  by (simp add: ring_fill_pop(1) RING_SIZE_def)

section \<open>Order of delivery\<close>

lemma maybe_emit_key_event_raw:
  "queue (maybe_emit_key_event lib a g e) = queue g"
  "cb (maybe_emit_key_event lib a g e) = cb g"
  "initialized (maybe_emit_key_event lib a g e) = initialized g"
  "delivered (maybe_emit_key_event lib a g e) = delivered g"
  by (simp_all add: maybe_emit_key_event_def Let_def split: option.split)

lemma worker_on_packet_raw:
  "cb (worker_on_packet lib a d g p) = cb g"
  "initialized (worker_on_packet lib a d g p) = initialized g"
  "queue (worker_on_packet lib a d g p) =
     (if cb g \<noteq> None then queue g else ring_push (queue g) (decode_event d p))"
  "delivered (worker_on_packet lib a d g p) =
     (if cb g \<noteq> None then delivered g @ [decode_event d p] else delivered g)"
  by (simp_all add: worker_on_packet_def Let_def maybe_emit_key_event_raw)






section \<open>Return value of poll\<close>

lemma ni_poll_cases:
  "ni_poll g evts m =
     (if \<not> initialized g \<or> evts = None \<or> m \<le> 0 then (- 1, [], g)
      else (fst (ring_pop_many (queue g) m), fst (snd (ring_pop_many (queue g) m)),
            g\<lparr>queue := snd (snd (ring_pop_many (queue g) m))\<rparr>))"
  by (simp add: ni_poll_def split: prod.split)

lemma ni_poll_key_events_cases:
  "ni_poll_key_events g kevts m =
     (if \<not> initialized g \<or> kevts = None \<or> m \<le> 0 then (- 1, [], g)
      else (fst (ring_pop_many (key_queue g) m), fst (snd (ring_pop_many (key_queue g) m)),
            g\<lparr>key_queue := snd (snd (ring_pop_many (key_queue g) m))\<rparr>))"
  by (simp add: ni_poll_key_events_def keyring_pop_many_def ring_pop_many_def split: prod.split)

lemma ring_pop_many_count:
  "fst (ring_pop_many r m) = int (length (fst (snd (ring_pop_many r m))))"
  "0 \<le> fst (ring_pop_many r m)"
  using ring_pop_loop_count[of r "[]" 0 m] by (simp_all add: ring_pop_many_def)

text \<open>
  C7.  \<open>ni_poll\<close> and \<open>ni_poll_key_events\<close> return a negative value exactly when
  the buffer is null, \<open>max_events\<close> is not positive, or the engine is not
  initialized; otherwise the value is the number of records copied to the
  caller, which are the oldest ones of the ring and are removed from it.
\<close>

theorem poll_negative_iff_invalid:
  "(fst (ni_poll g evts m) < 0 \<longleftrightarrow> evts = None \<or> m \<le> 0 \<or> \<not> initialized g) \<and>
   (0 \<le> fst (ni_poll g evts m) \<longrightarrow>
      fst (ni_poll g evts m) = int (length (fst (snd (ni_poll g evts m)))) \<and>
      (ring_ok (queue g) \<longrightarrow>
         fst (snd (ni_poll g evts m)) = take (nat m) (ring_contents (queue g)) \<and>
         ring_contents (queue (snd (snd (ni_poll g evts m)))) = drop (nat m) (ring_contents (queue g)))) \<and>
   (fst (ni_poll_key_events g kevts m) < 0 \<longleftrightarrow> kevts = None \<or> m \<le> 0 \<or> \<not> initialized g) \<and>
   (0 \<le> fst (ni_poll_key_events g kevts m) \<longrightarrow>
      fst (ni_poll_key_events g kevts m) = int (length (fst (snd (ni_poll_key_events g kevts m)))))"
proof -
  have p: "0 \<le> fst (ring_pop_many (queue g) m)" "0 \<le> fst (ring_pop_many (key_queue g) m)"
    by (rule ring_pop_many_count(2))+
  have 1: "fst (ni_poll g evts m) < 0 \<longleftrightarrow> evts = None \<or> m \<le> 0 \<or> \<not> initialized g"
    using p(1) by (auto simp: ni_poll_cases)
  have 2: "fst (ni_poll g evts m) = int (length (fst (snd (ni_poll g evts m))))"
    if "0 \<le> fst (ni_poll g evts m)"
    using that ring_pop_many_count(1)[of "queue g" m] by (auto simp: ni_poll_cases split: if_splits)
  have 3: "fst (snd (ni_poll g evts m)) = take (nat m) (ring_contents (queue g)) \<and>
         ring_contents (queue (snd (snd (ni_poll g evts m)))) = drop (nat m) (ring_contents (queue g))"
    if "0 \<le> fst (ni_poll g evts m)" "ring_ok (queue g)"
    using that ring_pop_many_spec(2,4)[OF that(2), of m] by (auto simp: ni_poll_cases split: if_splits)
  have 4: "fst (ni_poll_key_events g kevts m) < 0 \<longleftrightarrow> kevts = None \<or> m \<le> 0 \<or> \<not> initialized g"
    using p(2) by (auto simp: ni_poll_key_events_cases)
  have 5: "fst (ni_poll_key_events g kevts m) = int (length (fst (snd (ni_poll_key_events g kevts m))))"
    if "0 \<le> fst (ni_poll_key_events g kevts m)"
    using that ring_pop_many_count(1)[of "key_queue g" m]
    by (auto simp: ni_poll_key_events_cases split: if_splits)
  show ?thesis
  proof (intro conjI impI)
    show "fst (ni_poll g evts m) < 0 \<longleftrightarrow> evts = None \<or> m \<le> 0 \<or> \<not> initialized g" by (rule 1)
    show "fst (ni_poll_key_events g kevts m) < 0 \<longleftrightarrow> kevts = None \<or> m \<le> 0 \<or> \<not> initialized g"
      by (rule 4)
  next
    assume "0 \<le> fst (ni_poll g evts m)"
    then show "fst (ni_poll g evts m) = int (length (fst (snd (ni_poll g evts m))))" by (rule 2)
  next
    assume "0 \<le> fst (ni_poll g evts m)" "ring_ok (queue g)"
    then show "fst (snd (ni_poll g evts m)) = take (nat m) (ring_contents (queue g))"
      and "ring_contents (queue (snd (snd (ni_poll g evts m)))) = drop (nat m) (ring_contents (queue g))"
      using 3 by simp_all
  next
    assume "0 \<le> fst (ni_poll_key_events g kevts m)"
    then show "fst (ni_poll_key_events g kevts m) = int (length (fst (snd (ni_poll_key_events g kevts m))))"
      by (rule 5)
  qed
qed

theorem poll_negative_iff_invalid_witness:
  "fst (ni_poll (emit_or_queue engine_ex ni_event_zero) (Some []) 4) = 1 \<and>
   fst (snd (ni_poll (emit_or_queue engine_ex ni_event_zero) (Some []) 4)) = [ni_event_zero] \<and>
   fst (ni_poll (emit_or_queue engine_ex ni_event_zero) None 4) < 0 \<and>
   fst (ni_poll (emit_or_queue engine_ex ni_event_zero) (Some []) 0) < 0 \<and>
   fst (ni_poll_key_events engine_ex (Some []) 4) = 0 \<and>
   fst (ni_poll_key_events engine_ex None 4) < 0"
proof -
  let ?g = "emit_or_queue engine_ex ni_event_zero"
  have i: "initialized ?g" "initialized engine_ex"
    by (simp_all add: emit_or_queue_def engine_ex_def engine_static_def)
  have q: "queue ?g = foldl ring_push (ring_init ni_event_zero) [ni_event_zero]"
    by (simp add: emit_or_queue_def engine_ex_def engine_static_def)
  have z: "ring_count (ring_init ni_event_zero) = 0"
    using ring_contents_length[of "ring_init ni_event_zero"] by (simp add: ring_init_contents)
  have ok: "ring_ok (queue ?g)" and c: "ring_contents (queue ?g) = [ni_event_zero]"
    unfolding q using ring_pushes[OF ring_init_ok, of ni_event_zero "[ni_event_zero]"]
    by (simp_all add: ring_init_contents z RING_SIZE_def del: foldl_Cons)
  have kq: "key_queue engine_ex = ring_init (ni_key_event_zero abi_ex)"
    by (simp add: engine_ex_def engine_static_def keyring_init_def ring_init_def)
  have kc: "fst (snd (ring_pop_many (key_queue engine_ex) 4)) = []"
    unfolding kq using ring_pop_many_spec(2)[OF ring_init_ok, of "ni_key_event_zero abi_ex" 4]
    by (simp add: ring_init_contents)
  have k0: "fst (snd (ni_poll_key_events engine_ex (Some []) 4)) = []"
    using kc i(2) by (simp add: ni_poll_key_events_cases)
  note t1 = poll_negative_iff_invalid[of ?g "Some []" 4 "Some []"]
  note t2 = poll_negative_iff_invalid[of ?g None 4 None]
  note t3 = poll_negative_iff_invalid[of ?g "Some []" 0 None]
  note t4 = poll_negative_iff_invalid[of engine_ex "Some []" 4 "Some []"]
  note t5 = poll_negative_iff_invalid[of engine_ex "Some []" 4 None]
  have p1: "0 \<le> fst (ni_poll ?g (Some []) 4)" using t1 i by auto
  have p2: "0 \<le> fst (ni_poll_key_events engine_ex (Some []) 4)" using t4 i by auto
  have "fst (snd (ni_poll ?g (Some []) 4)) = [ni_event_zero]" using t1 p1 ok c by simp
  moreover have "fst (ni_poll ?g (Some []) 4) = 1" using t1 p1 calculation by simp
  moreover have "fst (ni_poll_key_events engine_ex (Some []) 4) = 0" using t4 p2 k0 by simp
  moreover have "fst (ni_poll ?g None 4) < 0" "fst (ni_poll_key_events engine_ex None 4) < 0"
    using t2 t5 by simp_all
  moreover have "fst (ni_poll ?g (Some []) 0) < 0" using t3 by simp
  ultimately show ?thesis by simp
qed

section \<open>Decoding of OS packets\<close>

lemma sint_ns:
  fixes s u :: "64 word"
  assumes "0 \<le> sint s" "sint s < 9223372036" "0 \<le> sint u" "sint u < 1000000"
  shows "sint (s * 1000000000 + u * 1000) = sint s * 1000000000 + sint u * 1000"
proof -
  have a: "sint (s * 1000000000) = sint s * 1000000000"
  proof -
    have "sint (s * 1000000000) = signed_take_bit 63 (sint s * 1000000000)"
      by (simp add: sint_word_ariths)
    also have "\<dots> = sint s * 1000000000"
      using assms by (intro signed_take_bit_int_eq_self) simp_all
    finally show ?thesis .
  qed
  have b: "sint (u * 1000) = sint u * 1000"
  proof -
    have "sint (u * 1000) = signed_take_bit 63 (sint u * 1000)"
      by (simp add: sint_word_ariths)
    also have "\<dots> = sint u * 1000"
      using assms by (intro signed_take_bit_int_eq_self) simp_all
    finally show ?thesis .
  qed
  have "sint (s * 1000000000 + u * 1000) = signed_take_bit 63 (sint (s * 1000000000) + sint (u * 1000))"
    by (simp add: sint_word_ariths)
  also have "\<dots> = sint s * 1000000000 + sint u * 1000"
    unfolding a b using assms by (intro signed_take_bit_int_eq_self) simp_all
  finally show ?thesis .
qed

text \<open>
  C8.  The worker copies type, code and value of the OS packet into the Event
  Record unchanged and sets \<open>timestamp_ns\<close> to seconds times \<open>10\<^sup>9\<close> plus
  microseconds times \<open>10\<^sup>3\<close>; the 64-bit arithmetic is exact for every
  timestamp with microseconds below \<open>10\<^sup>6\<close> and seconds below
  9223372036 (the year 2262 on the realtime clock).  That record is what the
  worker hands to the sink or pushes into the ring.
\<close>

theorem decode_event_exact:
  "(0 \<le> sint (iev_tv_sec p) \<and> sint (iev_tv_sec p) < 9223372036 \<and>
    0 \<le> sint (iev_tv_usec p) \<and> sint (iev_tv_usec p) < 1000000 \<longrightarrow>
      sint (ev_timestamp_ns (decode_event d p))
        = sint (iev_tv_sec p) * 10 ^ 9 + sint (iev_tv_usec p) * 10 ^ 3) \<and>
   ev_type (decode_event d p) = uint (iev_type p) \<and>
   ev_code (decode_event d p) = uint (iev_code p) \<and>
   ev_value (decode_event d p) = sint (iev_value p) \<and>
   ev_device_id (decode_event d p) = d \<and>
   delivered (worker_on_packet lib a d g p)
     = (if cb g \<noteq> None then delivered g @ [decode_event d p] else delivered g) \<and>
   queue (worker_on_packet lib a d g p)
     = (if cb g \<noteq> None then queue g else ring_push (queue g) (decode_event d p))"
proof -
  have "ev_timestamp_ns (decode_event d p) = iev_tv_sec p * 1000000000 + iev_tv_usec p * 1000"
    by (simp add: decode_event_def)
  then have t: "sint (ev_timestamp_ns (decode_event d p))
        = sint (iev_tv_sec p) * 10 ^ 9 + sint (iev_tv_usec p) * 10 ^ 3"
    if "0 \<le> sint (iev_tv_sec p)" "sint (iev_tv_sec p) < 9223372036"
       "0 \<le> sint (iev_tv_usec p)" "sint (iev_tv_usec p) < 1000000"
    using sint_ns[OF that] by simp
  have f: "ev_type (decode_event d p) = uint (iev_type p)"
    "ev_code (decode_event d p) = uint (iev_code p)"
    "ev_value (decode_event d p) = sint (iev_value p)"
    "ev_device_id (decode_event d p) = d"
    by (simp_all add: decode_event_def)
  show ?thesis using t f by (simp add: worker_on_packet_raw)
qed

theorem decode_event_exact_witness:
  "sint (ev_timestamp_ns (decode_event 3 rel_packet)) = 1755302400999999000 \<and>
   ev_type (decode_event 3 rel_packet) = 2 \<and>
   ev_code (decode_event 3 rel_packet) = 1 \<and>
   ev_value (decode_event 3 rel_packet) = - 5"
proof -
  have h: "0 \<le> sint (iev_tv_sec rel_packet) \<and> sint (iev_tv_sec rel_packet) < 9223372036 \<and>
    0 \<le> sint (iev_tv_usec rel_packet) \<and> sint (iev_tv_usec rel_packet) < 1000000"
    by (simp add: rel_packet_def)
  have v: "sint (iev_tv_sec rel_packet) = 1755302400" "sint (iev_tv_usec rel_packet) = 999999"
    "uint (iev_type rel_packet) = 2" "uint (iev_code rel_packet) = 1" "sint (iev_value rel_packet) = - 5"
    by (simp_all add: rel_packet_def)
  from decode_event_exact[of rel_packet 3] h
  have "sint (ev_timestamp_ns (decode_event 3 rel_packet))
        = sint (iev_tv_sec rel_packet) * 10 ^ 9 + sint (iev_tv_usec rel_packet) * 10 ^ 3"
    and "ev_type (decode_event 3 rel_packet) = uint (iev_type rel_packet)"
    and "ev_code (decode_event 3 rel_packet) = uint (iev_code rel_packet)"
    and "ev_value (decode_event 3 rel_packet) = sint (iev_value rel_packet)"
    by blast+
  then show ?thesis unfolding v by simp
qed

section \<open>Legacy pointer packets\<close>

lemma emit_all_sink:
  "cb g \<noteq> None \<Longrightarrow> foldl emit_or_queue g es = g\<lparr>delivered := delivered g @ es\<rparr>"
  by (induction es arbitrary: g) (simp_all add: emit_or_queue_def)

lemma mice_on_byte_fill:
  "have_n st < 2 \<Longrightarrow>
     mice_on_byte a (g, st) (b, t) = (g, \<lparr>pkt = (pkt st)[have_n st := b], have_n = have_n st + 1\<rparr>)"
  by (simp add: mice_on_byte_def Let_def)

lemma mice_on_byte_complete:
  "have_n st = 2 \<Longrightarrow>
     mice_on_byte a (g, st) (b, t)
       = (foldl emit_or_queue g (mice_packet_events a t ((pkt st)[2 := b]) 3),
          \<lparr>pkt = (pkt st)[2 := b], have_n = 0\<rparr>)"
  by (simp add: mice_on_byte_def Let_def)

lemma mice_packet:
  "mice_on_read a (g, \<lparr>pkt = [p0, p1, p2, p3], have_n = 0\<rparr>) ((b0, t0) # (b1, t1) # (b2, t2) # rest)
     = mice_on_read a (foldl emit_or_queue g (mice_packet_events a t2 [b0, b1, b2, p3] 3),
                       \<lparr>pkt = [b0, b1, b2, p3], have_n = 0\<rparr>) rest"
  by (simp add: mice_on_read_def mice_on_byte_fill mice_on_byte_complete)

lemma mice_packet_events_no_wheel:
  assumes "NI_EV_MOUSE a \<noteq> NI_EV_REL" "e \<in> set (mice_packet_events a t p 3)"
  shows "\<not> (ev_type e = NI_EV_REL \<and> ev_code e = NI_REL_WHEEL)"
  using assms
  by (auto simp: mice_packet_events_def Let_def mouse_button_event_def NI_EV_KEY_def NI_EV_REL_def
      NI_REL_X_def NI_REL_Y_def NI_REL_WHEEL_def split: if_splits)

lemma mice_on_byte_no_wheel:
  assumes "cb g \<noteq> None" "have_n st \<le> 2" "NI_EV_MOUSE a \<noteq> NI_EV_REL"
    and "\<forall>e \<in> set (delivered g). \<not> (ev_type e = NI_EV_REL \<and> ev_code e = NI_REL_WHEEL)"
  shows "cb (fst (mice_on_byte a (g, st) bt)) \<noteq> None \<and>
     have_n (snd (mice_on_byte a (g, st) bt)) \<le> 2 \<and>
     (\<forall>e \<in> set (delivered (fst (mice_on_byte a (g, st) bt))).
        \<not> (ev_type e = NI_EV_REL \<and> ev_code e = NI_REL_WHEEL))"
proof (cases "have_n st = 2")
  case True
  obtain b t where bt: "bt = (b, t)" by (cases bt)
  show ?thesis
    unfolding bt mice_on_byte_complete[OF True] emit_all_sink[OF assms(1)]
    using assms mice_packet_events_no_wheel[OF assms(3)] by auto
next
  case False
  then have l: "have_n st < 2" using assms(2) by simp
  obtain b t where bt: "bt = (b, t)" by (cases bt)
  show ?thesis
    unfolding bt mice_on_byte_fill[OF l] using assms l by simp
qed

lemma mice_on_read_no_wheel:
  assumes "NI_EV_MOUSE a \<noteq> NI_EV_REL"
  shows "cb g \<noteq> None \<Longrightarrow> have_n st \<le> 2 \<Longrightarrow>
     \<forall>e \<in> set (delivered g). \<not> (ev_type e = NI_EV_REL \<and> ev_code e = NI_REL_WHEEL) \<Longrightarrow>
     \<forall>e \<in> set (delivered (fst (mice_on_read a (g, st) bs))).
        \<not> (ev_type e = NI_EV_REL \<and> ev_code e = NI_REL_WHEEL)"
proof (induction bs arbitrary: g st)
  case Nil
  then show ?case by (simp add: mice_on_read_def)
next
  case (Cons bt bs)
  let ?r = "mice_on_byte a (g, st) bt"
  have step: "mice_on_read a (g, st) (bt # bs) = mice_on_read a (fst ?r, snd ?r) bs"
    by (simp add: mice_on_read_def)
  note s = mice_on_byte_no_wheel[OF Cons.prems(1,2) assms Cons.prems(3), of bt]
  show ?case
    unfolding step using s by (intro Cons.IH) simp_all
qed

text \<open>
  C2.  The motion bytes of a packet become REL events for X and Y, Y with its
  sign flipped.  A fourth byte is not decoded as a wheel event: the parser
  completes the packet at the third byte and resets its fill count, so the test
  \<open>have >= 4\<close> never holds.  On the four bytes \<open>08 05 FA 01\<close> the events are
  the three button states, the unified button events, REL X 5, REL Y 6 and the
  unified move; the byte \<open>01\<close> is kept as the first byte of the next packet.
  Whatever bytes are read, a sink never sees a REL event for the wheel.
\<close>

theorem mice_fourth_byte_not_wheel:
  "mice_on_read a (g, mice_state_init) [(8, t), (5, t), (250, t), (1, t)]
     = (foldl emit_or_queue g (mice_packet_events a t [8, 5, 250, 0] 3),
        \<lparr>pkt = [1, 5, 250, 0], have_n = 1\<rparr>) \<and>
   mice_packet_events a t [8, 5, 250, 0] 3
     = [ni_event_zero\<lparr>ev_device_id := - 2, ev_timestamp_ns := t, ev_type := NI_EV_KEY, ev_code := NI_BTN_LEFT, ev_value := 0\<rparr>,
        ni_event_zero\<lparr>ev_device_id := - 2, ev_timestamp_ns := t, ev_type := NI_EV_KEY, ev_code := NI_BTN_RIGHT, ev_value := 0\<rparr>,
        ni_event_zero\<lparr>ev_device_id := - 2, ev_timestamp_ns := t, ev_type := NI_EV_KEY, ev_code := NI_BTN_MIDDLE, ev_value := 0\<rparr>,
        mouse_button_event a t 1 0, mouse_button_event a t 2 0, mouse_button_event a t 3 0,
        ni_event_zero\<lparr>ev_device_id := - 2, ev_timestamp_ns := t, ev_type := NI_EV_REL, ev_code := NI_REL_X, ev_value := 5\<rparr>,
        ni_event_zero\<lparr>ev_device_id := - 2, ev_timestamp_ns := t, ev_type := NI_EV_REL, ev_code := NI_REL_Y, ev_value := 6\<rparr>,
        ni_event_zero\<lparr>ev_device_id := - 2, ev_timestamp_ns := t, ev_type := NI_EV_MOUSE a, ev_code := NI_MOUSE_MOVE a,
          ev_x := 5, ev_y := 6\<rparr>] \<and>
   (cb g \<noteq> None \<and> delivered g = [] \<and> NI_EV_MOUSE a \<noteq> NI_EV_REL \<longrightarrow>
      (\<forall>e \<in> set (delivered (fst (mice_on_read a (g, mice_state_init) bs))).
         \<not> (ev_type e = NI_EV_REL \<and> ev_code e = NI_REL_WHEEL)))"
proof -
  have never: "\<forall>e \<in> set (delivered (fst (mice_on_read a (g, mice_state_init) bs))).
         \<not> (ev_type e = NI_EV_REL \<and> ev_code e = NI_REL_WHEEL)"
    if "cb g \<noteq> None" "delivered g = []" "NI_EV_MOUSE a \<noteq> NI_EV_REL"
    using that by (intro mice_on_read_no_wheel) (simp_all add: mice_state_init_def)
  have "mice_on_read a (g, mice_state_init) [(8, t), (5, t), (250, t), (1, t)]
     = mice_on_read a (foldl emit_or_queue g (mice_packet_events a t [8, 5, 250, 0] 3),
                       \<lparr>pkt = [8, 5, 250, 0], have_n = 0\<rparr>) [(1, t)]"
    unfolding mice_state_init_def by (simp add: mice_packet)
  also have "\<dots> = (foldl emit_or_queue g (mice_packet_events a t [8, 5, 250, 0] 3),
        \<lparr>pkt = [1, 5, 250, 0], have_n = 1\<rparr>)"
    by (simp add: mice_on_read_def mice_on_byte_fill)
  finally have run: "mice_on_read a (g, mice_state_init) [(8, t), (5, t), (250, t), (1, t)]
     = (foldl emit_or_queue g (mice_packet_events a t [8, 5, 250, 0] 3),
        \<lparr>pkt = [1, 5, 250, 0], have_n = 1\<rparr>)" .
  show ?thesis
    unfolding run using never
    by (simp add: mice_packet_events_def Let_def ni_event_zero_def)
qed

theorem mice_fourth_byte_not_wheel_witness:
  "snd (mice_on_read abi_ex (engine_cb_ex, mice_state_init) [(8, 7), (5, 7), (250, 7), (1, 7)])
     = \<lparr>pkt = [1, 5, 250, 0], have_n = 1\<rparr> \<and>
   map ev_code (delivered (fst (mice_on_read abi_ex (engine_cb_ex, mice_state_init)
      [(8, 7), (5, 7), (250, 7), (1, 7)]))) = [272, 273, 274, 1, 1, 1, 0, 1, 2] \<and>
   map ev_type (delivered (fst (mice_on_read abi_ex (engine_cb_ex, mice_state_init)
      [(8, 7), (5, 7), (250, 7), (1, 7)]))) = [1, 1, 1, 100, 100, 100, 2, 2, 100] \<and>
   wheel_events (delivered (fst (mice_on_read abi_ex (engine_cb_ex, mice_state_init)
        [(8, 7), (5, 7), (250, 7), (1, 7), (9, 8), (1, 8), (1, 8), (255, 8)]))) = []"
proof -
  have c: "cb engine_cb_ex \<noteq> None" "delivered engine_cb_ex = []"
    by (simp_all add: engine_cb_ex_def engine_ex_def engine_static_def)
  have d: "NI_EV_MOUSE abi_ex \<noteq> NI_EV_REL"
    by (simp add: abi_ex_def NI_EV_REL_def)
  show ?thesis
    unfolding wheel_events_def filter_empty_conv
    using mice_fourth_byte_not_wheel[of abi_ex engine_cb_ex 7
        "[(8, 7), (5, 7), (250, 7), (1, 7), (9, 8), (1, 8), (1, 8), (255, 8)]"] c d
    by (simp add: emit_all_sink mouse_button_event_def ni_event_zero_def abi_ex_def
        NI_EV_KEY_def NI_EV_REL_def NI_BTN_LEFT_def NI_BTN_RIGHT_def NI_BTN_MIDDLE_def
        NI_REL_X_def NI_REL_Y_def)
qed

text \<open>
  C3.  The reader keeps no previous button mask.  Every packet yields one KEY
  event for each of the three primary buttons, carrying the state of its mask
  bit (1 set, 0 clear); these are the only KEY events of the packet, and they
  are emitted whenever a third byte completes a packet, whatever the packet
  before it was.
\<close>

theorem mice_buttons_every_packet:
  "take 3 (mice_packet_events a t p h)
     = [ni_event_zero\<lparr>ev_device_id := - 2, ev_timestamp_ns := t, ev_type := NI_EV_KEY, ev_code := NI_BTN_LEFT,
          ev_value := (if p ! 0 AND 1 \<noteq> 0 then 1 else 0)\<rparr>,
        ni_event_zero\<lparr>ev_device_id := - 2, ev_timestamp_ns := t, ev_type := NI_EV_KEY, ev_code := NI_BTN_RIGHT,
          ev_value := (if p ! 0 AND 2 \<noteq> 0 then 1 else 0)\<rparr>,
        ni_event_zero\<lparr>ev_device_id := - 2, ev_timestamp_ns := t, ev_type := NI_EV_KEY, ev_code := NI_BTN_MIDDLE,
          ev_value := (if p ! 0 AND 4 \<noteq> 0 then 1 else 0)\<rparr>] \<and>
   (NI_EV_MOUSE a \<noteq> NI_EV_KEY \<longrightarrow>
      filter (\<lambda>e. ev_type e = NI_EV_KEY) (mice_packet_events a t p h) = take 3 (mice_packet_events a t p h)) \<and>
   (have_n st = 2 \<longrightarrow>
      fst (mice_on_byte a (g, st) (b, t))
        = foldl emit_or_queue g (mice_packet_events a t ((pkt st)[2 := b]) 3))"
  by (simp add: mice_on_byte_complete)
     (simp add: mice_packet_events_def Let_def ni_event_zero_def mouse_button_event_def
        NI_EV_KEY_def NI_EV_REL_def)

theorem mice_buttons_every_packet_witness:
  "map ev_value (take 3 (mice_packet_events abi_ex 7 [5, 0, 0, 0] 3)) = [1, 0, 1] \<and>
   map ev_code (filter (\<lambda>e. ev_type e = NI_EV_KEY) (mice_packet_events abi_ex 7 [5, 0, 0, 0] 3))
     = [NI_BTN_LEFT, NI_BTN_RIGHT, NI_BTN_MIDDLE] \<and>
   fst (mice_on_byte abi_ex (engine_ex, \<lparr>pkt = [5, 0, 9, 0], have_n = 2\<rparr>) (0, 7))
     = foldl emit_or_queue engine_ex (mice_packet_events abi_ex 7 [5, 0, 0, 0] 3)"
proof -
  have h: "NI_EV_MOUSE abi_ex \<noteq> NI_EV_KEY" "have_n \<lparr>pkt = [5, 0, 9, 0], have_n = 2\<rparr> = 2"
    by (simp_all add: abi_ex_def NI_EV_KEY_def)
  show ?thesis
    using mice_buttons_every_packet[of abi_ex 7 "[5, 0, 0, 0]" 3 "\<lparr>pkt = [5, 0, 9, 0], have_n = 2\<rparr>"
        engine_ex 0] h
    by simp
qed

text \<open>
  Two packets in a row with the left button held: the sink sees a KEY event for
  the left button in each of them.
\<close>

theorem mice_buttons_counterexample:
  "map ev_value (button_events NI_BTN_LEFT
     (delivered (fst (mice_on_read abi_ex (engine_cb_ex, mice_state_init)
        [(9, 10), (0, 10), (0, 10), (9, 20), (0, 20), (0, 20)])))) = [1, 1]"
proof -
  have c: "cb engine_cb_ex \<noteq> None" "delivered engine_cb_ex = []"
    by (simp_all add: engine_cb_ex_def engine_ex_def engine_static_def)
  have e: "map ev_value (button_events NI_BTN_LEFT (mice_packet_events abi_ex t [9, 0, 0, 0] 3)) = [1]" for t
    by (simp add: button_events_def mice_packet_events_def Let_def ni_event_zero_def mouse_button_event_def
        abi_ex_def NI_EV_KEY_def NI_EV_REL_def NI_BTN_LEFT_def NI_BTN_RIGHT_def NI_BTN_MIDDLE_def)
  have "fst (mice_on_read abi_ex (engine_cb_ex, mice_state_init)
        [(9, 10), (0, 10), (0, 10), (9, 20), (0, 20), (0, 20)])
     = engine_cb_ex\<lparr>delivered := mice_packet_events abi_ex 10 [9, 0, 0, 0] 3
          @ mice_packet_events abi_ex 20 [9, 0, 0, 0] 3\<rparr>"
    unfolding mice_state_init_def using c
    by (simp add: mice_packet emit_all_sink) (simp add: mice_on_read_def)
  then show ?thesis using e by (simp add: button_events_def)
qed

section \<open>Key Records\<close>

lemma maybe_emit_key_event_none:
  "\<not> xkb_enabled g \<or> \<not> have_xkbcommon a \<or> ev_type base \<noteq> NI_EV_KEY \<or> xkb_state g = None
     \<Longrightarrow> maybe_emit_key_event lib a g base = g"
  by (auto simp: maybe_emit_key_event_def Let_def)

lemma maybe_emit_key_event_some:
  assumes "xkb_enabled g" "have_xkbcommon a" "ev_type base = NI_EV_KEY" "xkb_state g = Some st"
  shows "\<exists>k. kev_timestamp_ns k = ev_timestamp_ns base \<and> kev_device_id k = ev_device_id base \<and>
     kev_down k = (if ev_value base \<noteq> 0 then 1 else 0) \<and>
     kev_text k = (if ev_value base \<noteq> 0
        then xkb_state_key_get_utf8 lib (xkb_state_update_key lib st (word_of_int (ev_code base) + 8) (ev_value base \<noteq> 0))
               (word_of_int (ev_code base) + 8) ((replicate (text_size a) 0)[0 := 0])
        else (replicate (text_size a) 0)[0 := 0]) \<and>
     key_delivered (maybe_emit_key_event lib a g base)
       = key_delivered g @ (if key_cb g \<noteq> None then [k] else []) \<and>
     key_queue (maybe_emit_key_event lib a g base)
       = (if key_cb g \<noteq> None then key_queue g else keyring_push (key_queue g) k)"
proof -
  let ?c = "word_of_int (ev_code base) + 8 :: 32 word"
  let ?st = "xkb_state_update_key lib st ?c (ev_value base \<noteq> 0)"
  let ?t0 = "(replicate (text_size a) 0)[0 := 0] :: byte list"
  let ?k = "\<lparr>kev_device_id = ev_device_id base, kev_timestamp_ns = ev_timestamp_ns base,
      kev_down = (if ev_value base \<noteq> 0 then 1 else 0),
      kev_keysym = xkb_state_key_get_one_sym lib ?st ?c,
      kev_mods = mods_mask_from_state lib a (g\<lparr>xkb_state := Some ?st\<rparr>),
      kev_text = (if ev_value base \<noteq> 0 then xkb_state_key_get_utf8 lib ?st ?c ?t0 else ?t0)\<rparr>"
  have "maybe_emit_key_event lib a g base
      = (if key_cb g \<noteq> None then g\<lparr>xkb_state := Some ?st, key_delivered := key_delivered g @ [?k]\<rparr>
         else g\<lparr>xkb_state := Some ?st, key_queue := keyring_push (key_queue g) ?k\<rparr>)"
    using assms by (simp add: maybe_emit_key_event_def Let_def ni_key_event_zero_def)
  then show ?thesis
    by (intro exI[where x = ?k]) simp
qed

text \<open>
  C4.  With the keymap enabled, an Event Record processed by
  \<open>maybe_emit_key_event\<close> yields at most one Key Record, handed to the key sink
  or pushed into the key ring, and only for a KEY event.  The record carries the
  event's \<open>timestamp_ns\<close> and \<open>device_id\<close>, its \<open>down\<close> flag is 1 exactly when the
  event value is not 0, its text starts with a NUL unless \<open>down\<close> is set, and the
  text buffer holds a NUL.  On a press the buffer is filled by the keymap
  library, so termination is the library's contract: the call leaves a NUL in a
  buffer of the size it was given.
\<close>

theorem key_record_per_key_event:
  "xkb_enabled g \<and> 0 < text_size a \<and>
   (\<forall>st c buf. length buf = text_size a \<longrightarrow> 0 \<in> set (xkb_state_key_get_utf8 lib st c buf))
   \<longrightarrow>
   (\<exists>ks. length ks \<le> 1 \<and>
      (\<forall>k \<in> set ks.
         ev_type base = NI_EV_KEY \<and>
         kev_timestamp_ns k = ev_timestamp_ns base \<and>
         kev_device_id k = ev_device_id base \<and>
         kev_down k = (if ev_value base \<noteq> 0 then 1 else 0) \<and>
         (kev_text k ! 0 \<noteq> 0 \<longrightarrow> kev_down k \<noteq> 0) \<and>
         0 \<in> set (kev_text k)) \<and>
      key_delivered (maybe_emit_key_event lib a g base)
        = key_delivered g @ (if key_cb g \<noteq> None then ks else []) \<and>
      key_queue (maybe_emit_key_event lib a g base)
        = (if key_cb g \<noteq> None then key_queue g else foldl keyring_push (key_queue g) ks))"
proof (intro impI, elim conjE)
  assume en: "xkb_enabled g" and sz: "0 < text_size a"
    and lib: "\<forall>st c buf. length buf = text_size a \<longrightarrow> 0 \<in> set (xkb_state_key_get_utf8 lib st c buf)"
  let ?g' = "maybe_emit_key_event lib a g base"
  let ?P = "\<lambda>ks. length ks \<le> 1 \<and>
      (\<forall>k \<in> set ks.
         ev_type base = NI_EV_KEY \<and>
         kev_timestamp_ns k = ev_timestamp_ns base \<and>
         kev_device_id k = ev_device_id base \<and>
         kev_down k = (if ev_value base \<noteq> 0 then 1 else 0) \<and>
         (kev_text k ! 0 \<noteq> 0 \<longrightarrow> kev_down k \<noteq> 0) \<and>
         0 \<in> set (kev_text k)) \<and>
      key_delivered ?g' = key_delivered g @ (if key_cb g \<noteq> None then ks else []) \<and>
      key_queue ?g' = (if key_cb g \<noteq> None then key_queue g else foldl keyring_push (key_queue g) ks)"
  show "\<exists>ks. ?P ks"
  proof (cases "have_xkbcommon a \<and> ev_type base = NI_EV_KEY \<and> xkb_state g \<noteq> None")
    case False
    then have "?g' = g" by (intro maybe_emit_key_event_none) auto
    then have "?P []" by simp
    then show ?thesis ..
  next
    case True
    then obtain st where st: "xkb_state g = Some st" by auto
    from maybe_emit_key_event_some[OF en _ _ st, of a base lib] True
    obtain k where k: "kev_timestamp_ns k = ev_timestamp_ns base" "kev_device_id k = ev_device_id base"
      "kev_down k = (if ev_value base \<noteq> 0 then 1 else 0)"
      "kev_text k = (if ev_value base \<noteq> 0
        then xkb_state_key_get_utf8 lib (xkb_state_update_key lib st (word_of_int (ev_code base) + 8) (ev_value base \<noteq> 0))
               (word_of_int (ev_code base) + 8) ((replicate (text_size a) 0)[0 := 0])
        else (replicate (text_size a) 0)[0 := 0])"
      "key_delivered ?g' = key_delivered g @ (if key_cb g \<noteq> None then [k] else [])"
      "key_queue ?g' = (if key_cb g \<noteq> None then key_queue g else keyring_push (key_queue g) k)"
      by blast
    have z: "(replicate (text_size a) (0::byte))[0 := 0] = replicate (text_size a) 0"
      by (rule nth_equalityI) (auto simp: nth_list_update)
    have t0: "kev_text k ! 0 \<noteq> 0 \<longrightarrow> kev_down k \<noteq> 0"
      using k(3,4) sz by (auto simp: z)
    have nul: "0 \<in> set (kev_text k)"
    proof (cases "ev_value base \<noteq> 0")
      case True
      then show ?thesis using k(4) lib by simp
    next
      case False
      then show ?thesis using k(4) sz by (simp add: z)
    qed
    have "?P [k]" using k(1,2,3,5,6) t0 nul True by simp
    then show ?thesis ..
  qed
qed

lemma xkb_ex_terminates:
  "\<forall>st c buf. length buf = text_size abi_ex \<longrightarrow> 0 \<in> set (xkb_state_key_get_utf8 xkb_ex st c buf)"
proof (intro allI impI)
  fix st :: unit and c :: "32 word" and buf :: "byte list"
  assume "length buf = text_size abi_ex"
  then have l: "length buf = 32" by (simp add: abi_ex_def)
  then have "0 \<in> set (buf[0 := 113, 1 := 0])" "0 \<in> set (buf[0 := 0])"
    by (simp_all add: set_update_memI)
  then show "0 \<in> set (xkb_state_key_get_utf8 xkb_ex st c buf)"
    by (simp add: xkb_ex_def)
qed

theorem key_record_per_key_event_witness:
  "\<exists>ks. length ks \<le> 1 \<and>
      (\<forall>k \<in> set ks.
         ev_type key_q_press = NI_EV_KEY \<and>
         kev_timestamp_ns k = 100000 \<and>
         kev_device_id k = 3 \<and>
         kev_down k = 1 \<and>
         (kev_text k ! 0 \<noteq> 0 \<longrightarrow> kev_down k \<noteq> 0) \<and>
         0 \<in> set (kev_text k)) \<and>
      key_delivered (maybe_emit_key_event xkb_ex abi_ex engine_xkb_ex key_q_press) = [] \<and>
      key_queue (maybe_emit_key_event xkb_ex abi_ex engine_xkb_ex key_q_press)
        = foldl keyring_push (key_queue engine_xkb_ex) ks"
proof -
  have h: "xkb_enabled engine_xkb_ex \<and> 0 < text_size abi_ex"
    by (simp add: engine_xkb_ex_def abi_ex_def)
  have v: "key_cb engine_xkb_ex = None" "key_delivered engine_xkb_ex = []"
    "ev_timestamp_ns key_q_press = 100000" "ev_device_id key_q_press = 3" "ev_value key_q_press = 1"
    by (simp_all add: engine_xkb_ex_def engine_ex_def engine_static_def key_q_press_def)
  show ?thesis
    using key_record_per_key_event[of engine_xkb_ex abi_ex xkb_ex key_q_press] h xkb_ex_terminates
    unfolding v by simp
qed

section \<open>Device paths and ids\<close>

lemma digit_char:
  fixes d :: nat
  shows "d < 10 \<Longrightarrow> is_digit (char_of (48 + d)) \<and> (of_char (char_of (48 + d)) :: nat) = 48 + d"
  by (simp add: is_digit_def)

lemma dec_string_digits: "c \<in> set (dec_string n) \<Longrightarrow> is_digit c"
proof (induction n arbitrary: c rule: dec_string.induct)
  case (1 n)
  show ?case
  proof (cases "n < 10")
    case True
    then show ?thesis using "1.prems" digit_char[of n] by (simp add: dec_string.simps[of n])
  next
    case False
    then show ?thesis
      using "1.prems" "1.IH"[OF False] digit_char[of "n mod 10"]
      by (auto simp: dec_string.simps[of n])
  qed
qed

lemma dec_string_nonempty: "dec_string n \<noteq> []"
  by (subst dec_string.simps) simp

lemma atoi_digits_append:
  "\<forall>c \<in> set xs. is_digit c \<Longrightarrow> atoi_digits acc (xs @ ys) = atoi_digits (atoi_digits acc xs) ys"
  by (induction xs arbitrary: acc) simp_all

lemma atoi_digits_dec_string: "atoi_digits 0 (dec_string n) = int n"
proof (induction n rule: dec_string.induct)
  case (1 n)
  show ?case
  proof (cases "n < 10")
    case True
    then show ?thesis using digit_char[of n] by (simp add: dec_string.simps[of n])
  next
    case False
    have d: "\<forall>c \<in> set (dec_string (n div 10)). is_digit c"
      using dec_string_digits by blast
    have "atoi_digits 0 (dec_string n)
        = atoi_digits (int (n div 10)) [char_of (48 + n mod 10)]"
      using False "1.IH"[OF False] by (simp add: dec_string.simps[of n] atoi_digits_append[OF d])
    also have "\<dots> = int (n div 10) * 10 + int (n mod 10)"
      using digit_char[of "n mod 10"] by simp
    also have "\<dots> = int n" by (simp add: zdiv_int zmod_int)
    finally show ?thesis .
  qed
qed

lemma digit_not_special:
  "is_digit c \<Longrightarrow> \<not> is_space c \<and> c \<noteq> CHR ''-'' \<and> c \<noteq> CHR ''+'' \<and> c \<noteq> CHR ''t''"
  by (auto simp: is_digit_def is_space_def)

lemma atoi_dec_string: "atoi (dec_string n) = int n"
proof -
  obtain c cs where e: "dec_string n = c # cs"
    using dec_string_nonempty[of n] by (cases "dec_string n") auto
  have "is_digit c" using dec_string_digits[of c n] e by simp
  then have "\<not> is_space c \<and> c \<noteq> CHR ''-'' \<and> c \<noteq> CHR ''+''"
    using digit_not_special by blast
  then have "atoi (c # cs) = atoi_digits 0 (c # cs)"
    by (simp add: atoi_def)
  then show ?thesis using atoi_digits_dec_string[of n] e by simp
qed

lemma strrchr_after_event:
  assumes "CHR ''t'' \<notin> set ds"
  shows "strrchr_after CHR ''t'' (''/dev/input/event'' @ ds) = Some ds"
proof -
  have "takeWhile (\<lambda>x. x \<noteq> CHR ''t'') (rev ds @ rev ''/dev/input/event'')
      = rev ds @ takeWhile (\<lambda>x. x \<noteq> CHR ''t'') (rev ''/dev/input/event'')"
    using assms by (intro takeWhile_append2) auto
  then have "takeWhile (\<lambda>x. x \<noteq> CHR ''t'') (rev (''/dev/input/event'' @ ds)) = rev ds"
    by simp
  then show ?thesis unfolding strrchr_after_def by simp
qed

lemma path_devid_scan_path: "path_devid (scan_path i) = int i"
proof -
  have "CHR ''t'' \<notin> set (dec_string i)"
    using dec_string_digits digit_not_special by blast
  then have "strrchr_after CHR ''t'' (scan_path i) = Some (dec_string i)"
    unfolding scan_path_def by (rule strrchr_after_event)
  then show ?thesis
    unfolding path_devid_def by (simp add: atoi_dec_string)
qed

lemma scan_path_inj: "scan_path i = scan_path j \<longleftrightarrow> i = j"
proof
  assume "scan_path i = scan_path j"
  then have "path_devid (scan_path i) = path_devid (scan_path j)" by (rule arg_cong)
  then show "i = j" unfolding path_devid_scan_path by simp
qed simp

section \<open>Discovery and the registry\<close>

lemma scan_step_eval:
  "scan_step env a i g =
     (if has_device_id g (int i) then g
      else case os_open env (scan_path i) of
             None \<Rightarrow> g
           | Some fd \<Rightarrow>
               (case dev_filter g of
                  None \<Rightarrow> add_device_fd g fd (int i) (scan_path i)
                | Some f \<Rightarrow>
                    if f (fill_device_info env a fd (scan_path i))
                    then add_device_fd g fd (int i) (scan_path i)
                    else g\<lparr>sys_log := sys_log g @ [Close fd]\<rparr>))"
  by (simp add: scan_step_def open_device_filtered_def path_devid_scan_path Let_def
      split: option.split)

lemma scan_step_open_fails: "os_open env (scan_path i) = None \<Longrightarrow> scan_step env a i g = g"
  by (simp add: scan_step_eval)

lemma fold_scan_step_open_fails:
  "\<forall>i \<in> set is. os_open env (scan_path i) = None \<Longrightarrow> fold (scan_step env a) is g = g"
  by (induction "is" arbitrary: g) (simp_all add: scan_step_open_fails)

lemma scan_devices_prefix:
  assumes "k \<le> MAX_DEVICES"
    and "\<forall>i. k \<le> i \<and> i < MAX_DEVICES \<longrightarrow> os_open env (scan_path i) = None"
  shows "scan_devices env a g = fold (scan_step env a) [0..<k] g"
proof -
  have "[0..<MAX_DEVICES] = [0..<k] @ [k..<MAX_DEVICES]"
    using assms(1) upt_add_eq_append[of 0 k "MAX_DEVICES - k"] by simp
  then have "scan_devices env a g
      = fold (scan_step env a) [k..<MAX_DEVICES] (fold (scan_step env a) [0..<k] g)"
    by (simp add: scan_devices_def)
  also have "\<dots> = fold (scan_step env a) [0..<k] g"
    using assms(2) by (intro fold_scan_step_open_fails) simp
  finally show ?thesis .
qed





lemma env_two_prefix:
  "\<forall>i. Suc (Suc 0) \<le> i \<and> i < MAX_DEVICES \<longrightarrow> os_open env_two (scan_path i) = None"
  by (simp add: env_two_def scan_path_inj)

lemma scan_devices_env_two:
  "scan_devices env_two a g = scan_step env_two a 1 (scan_step env_two a 0 g)"
proof -
  have "Suc (Suc 0) \<le> MAX_DEVICES" by (simp add: MAX_DEVICES_def)
  from scan_devices_prefix[OF this env_two_prefix]
  show ?thesis by simp
qed

lemma env_two_open:
  "os_open env_two (scan_path 0) = Some 5" "os_open env_two (scan_path (Suc 0)) = Some 6"
  by (simp_all add: env_two_def scan_path_inj)


lemma env_two_fields:
  "os_epoll_create env_two = 3" "os_inotify_init env_two = 4" "os_worker_thread_ok env_two"
  "have_xkbcommon abi_ex"
  by (simp_all add: env_two_def abi_ex_def)

lemma engine_two_ex_fields:
  "initialized engine_two_ex" "dev_filter engine_two_ex = None"
  "devices engine_two_ex =
     [\<lparr>dev_fd = 5, dev_id = 0, dev_path = take 127 (scan_path 0)\<rparr>,
      \<lparr>dev_fd = 6, dev_id = 1, dev_path = take 127 (scan_path (Suc 0))\<rparr>]"
  by (simp_all add: engine_two_ex_def ni_init_def Let_def scan_devices_env_two scan_step_eval
      env_two_open has_device_id_def add_device_fd_def engine_zero_def engine_static_def
      env_two_fields)


lemma dec_string_0: "dec_string 0 = ''0''"
  by code_simp

lemma scan_path_0: "scan_path 0 = ''/dev/input/event0''"
  by (simp add: scan_path_def dec_string_0)

lemma hotplug_event0_open:
  "open_device_filtered env_two abi_ex engine_two_ex ''/dev/input/event0'' = (Some (5, 0), engine_two_ex)"
  using env_two_open(1) path_devid_scan_path[of 0]
  by (simp add: open_device_filtered_def scan_path_0 engine_two_ex_fields)

text \<open>
  C5.  The ids of registered devices are not always pairwise distinct.  The
  initial scan skips an id that is already registered, but the hotplug path
  calls \<open>add_device_fd\<close> without that check (and without a check against
  \<open>MAX_DEVICES\<close>).  On the host with two nodes the registry after \<open>ni_init\<close>
  holds ids 0 and 1; a create or move notification for \<open>event0\<close> then registers
  id 0 a second time.
\<close>

theorem hotplug_registers_duplicate_id:
  "distinct (map dev_id (devices engine_two_ex)) \<and>
   map dev_id (devices (handle_inotify_event env_two abi_ex t engine_two_ex [hotplug_event0])) = [0, 1, 0] \<and>
   \<not> distinct (map dev_id (devices (handle_inotify_event env_two abi_ex t engine_two_ex [hotplug_event0])))"
proof -
  have "handle_inotify_event env_two abi_ex t engine_two_ex [hotplug_event0]
      = add_device_fd engine_two_ex 5 0 ''/dev/input/event0''"
    by (simp add: handle_inotify_event_def handle_inotify_one_def hotplug_event0_def Let_def
        hotplug_event0_open)
  then show ?thesis
    by (simp add: add_device_fd_def engine_two_ex_fields)
qed

section \<open>Replacing the filter\<close>




section \<open>Configuration before init\<close>

lemma engine_zero_independent:
  assumes "delivered h = delivered g" "key_delivered h = key_delivered g" "sys_log h = sys_log g"
  shows "engine_zero a h = engine_zero a g"
  using assms by (simp add: engine_zero_def)

lemma ni_init_independent:
  assumes "\<not> initialized g" "\<not> initialized h"
    and "delivered h = delivered g" "key_delivered h = key_delivered g" "sys_log h = sys_log g"
  shows "ni_init env a h 0 = ni_init env a g 0"
  using assms(1,2) engine_zero_independent[OF assms(3-5), of a]
  by (simp add: ni_init_def)

lemma scan_step_keeps:
  "initialized (scan_step env a i g) = initialized g"
  "cb (scan_step env a i g) = cb g"
  "key_cb (scan_step env a i g) = key_cb g"
  "dev_filter (scan_step env a i g) = dev_filter g"
  "mice_enabled (scan_step env a i g) = mice_enabled g"
  "mice_thread (scan_step env a i g) = mice_thread g"
  "xkb_enabled (scan_step env a i g) = xkb_enabled g"
  "xkb_rules (scan_step env a i g) = xkb_rules g"
  "xkb_model (scan_step env a i g) = xkb_model g"
  "xkb_layout (scan_step env a i g) = xkb_layout g"
  "xkb_variant (scan_step env a i g) = xkb_variant g"
  "xkb_options (scan_step env a i g) = xkb_options g"
  by (simp_all add: scan_step_eval add_device_fd_def split: option.split)

lemma fold_scan_step_keeps:
  "initialized (fold (scan_step env a) is g) = initialized g \<and>
   cb (fold (scan_step env a) is g) = cb g \<and>
   key_cb (fold (scan_step env a) is g) = key_cb g \<and>
   dev_filter (fold (scan_step env a) is g) = dev_filter g \<and>
   mice_enabled (fold (scan_step env a) is g) = mice_enabled g \<and>
   mice_thread (fold (scan_step env a) is g) = mice_thread g \<and>
   xkb_enabled (fold (scan_step env a) is g) = xkb_enabled g \<and>
   xkb_rules (fold (scan_step env a) is g) = xkb_rules g \<and>
   xkb_model (fold (scan_step env a) is g) = xkb_model g \<and>
   xkb_layout (fold (scan_step env a) is g) = xkb_layout g \<and>
   xkb_variant (fold (scan_step env a) is g) = xkb_variant g \<and>
   xkb_options (fold (scan_step env a) is g) = xkb_options g"
  by (induction "is" arbitrary: g) (simp_all add: scan_step_keeps)

lemmas scan_devices_keeps = fold_scan_step_keeps[of _ _ "[0..<MAX_DEVICES]", folded scan_devices_def]

lemma ni_init_unfold:
  assumes "\<not> initialized g"
  shows "ni_init env a g 0 =
     (let z = (engine_zero a g)\<lparr>epoll_fd := os_epoll_create env, mice_fd := - 1\<rparr>;
          w = (if os_inotify_init env \<ge> 0
               then z\<lparr>inotify_fd := os_inotify_init env, sys_log := sys_log g @ [EpollAdd (os_inotify_init env)]\<rparr>
               else z\<lparr>inotify_fd := os_inotify_init env\<rparr>);
          s = scan_devices env a w
      in if os_epoll_create env < 0 then (- 1, z)
         else if \<not> have_xkbcommon a then (- 1, s\<lparr>stop := False\<rparr>)
         else if \<not> os_worker_thread_ok env
              then (- 1, s\<lparr>stop := False, xkb_rules := ''evdev'', xkb_model := ''pc105'', xkb_layout := ''us''\<rparr>)
              else (0, s\<lparr>stop := False, xkb_rules := ''evdev'', xkb_model := ''pc105'', xkb_layout := ''us'',
                         thread := True, initialized := True\<rparr>))"
proof -
  let ?z = "(engine_zero a g)\<lparr>epoll_fd := os_epoll_create env, mice_fd := - 1\<rparr>"
  let ?w = "(if os_inotify_init env \<ge> 0
               then ?z\<lparr>inotify_fd := os_inotify_init env, sys_log := sys_log g @ [EpollAdd (os_inotify_init env)]\<rparr>
               else ?z\<lparr>inotify_fd := os_inotify_init env\<rparr>)"
  let ?s = "scan_devices env a ?w"
  have w: "\<not> mice_enabled ?w" "xkb_rules ?w = []" "xkb_model ?w = []" "xkb_layout ?w = []"
    by (simp_all add: engine_zero_def)
  have s: "\<not> mice_enabled ?s" "xkb_rules ?s = []" "xkb_model ?s = []" "xkb_layout ?s = []"
    using w scan_devices_keeps[of env a ?w] by simp_all
  have g3: "(if inotify_fd (?z\<lparr>inotify_fd := os_inotify_init env\<rparr>) \<ge> 0
             then (?z\<lparr>inotify_fd := os_inotify_init env\<rparr>)\<lparr>sys_log := sys_log (?z\<lparr>inotify_fd := os_inotify_init env\<rparr>)
                    @ [EpollAdd (inotify_fd (?z\<lparr>inotify_fd := os_inotify_init env\<rparr>))]\<rparr>
             else ?z\<lparr>inotify_fd := os_inotify_init env\<rparr>) = ?w"
    by (simp add: engine_zero_def)
  show ?thesis
    unfolding ni_init_def Let_def g3
    using assms s by simp
qed

lemma rebuild_xkb_keymap_keeps:
  "initialized (snd (rebuild_xkb_keymap lib a g)) = initialized g"
  "delivered (snd (rebuild_xkb_keymap lib a g)) = delivered g"
  "key_delivered (snd (rebuild_xkb_keymap lib a g)) = key_delivered g"
  "sys_log (snd (rebuild_xkb_keymap lib a g)) = sys_log g"
  by (simp_all add: rebuild_xkb_keymap_def split: option.split)

lemma ni_set_xkb_names_keeps:
  "initialized (snd (ni_set_xkb_names lib a g rules model layout variant options)) = initialized g \<and>
   delivered (snd (ni_set_xkb_names lib a g rules model layout variant options)) = delivered g \<and>
   key_delivered (snd (ni_set_xkb_names lib a g rules model layout variant options)) = key_delivered g \<and>
   sys_log (snd (ni_set_xkb_names lib a g rules model layout variant options)) = sys_log g"
proof -
  define g1 where "g1 = (case rules of Some s \<Rightarrow> g\<lparr>xkb_rules := take 31 s\<rparr> | None \<Rightarrow> g)"
  define g2 where "g2 = (case model of Some s \<Rightarrow> g1\<lparr>xkb_model := take 31 s\<rparr> | None \<Rightarrow> g1)"
  define g3 where "g3 = (case layout of Some s \<Rightarrow> g2\<lparr>xkb_layout := take 63 s\<rparr> | None \<Rightarrow> g2)"
  define g4 where "g4 = (case variant of Some s \<Rightarrow> g3\<lparr>xkb_variant := take 31 s\<rparr> | None \<Rightarrow> g3)"
  define g5 where "g5 = (case options of Some s \<Rightarrow> g4\<lparr>xkb_options := take 127 s\<rparr> | None \<Rightarrow> g4)"
  have k1: "initialized g1 = initialized g \<and> delivered g1 = delivered g \<and>
      key_delivered g1 = key_delivered g \<and> sys_log g1 = sys_log g"
    unfolding g1_def by (simp split: option.split)
  have k2: "initialized g2 = initialized g \<and> delivered g2 = delivered g \<and>
      key_delivered g2 = key_delivered g \<and> sys_log g2 = sys_log g"
    unfolding g2_def using k1 by (simp split: option.split)
  have k3: "initialized g3 = initialized g \<and> delivered g3 = delivered g \<and>
      key_delivered g3 = key_delivered g \<and> sys_log g3 = sys_log g"
    unfolding g3_def using k2 by (simp split: option.split)
  have k4: "initialized g4 = initialized g \<and> delivered g4 = delivered g \<and>
      key_delivered g4 = key_delivered g \<and> sys_log g4 = sys_log g"
    unfolding g4_def using k3 by (simp split: option.split)
  have k5: "initialized g5 = initialized g \<and> delivered g5 = delivered g \<and>
      key_delivered g5 = key_delivered g \<and> sys_log g5 = sys_log g"
    unfolding g5_def using k4 by (simp split: option.split)
  have r: "ni_set_xkb_names lib a g rules model layout variant options
      = (if \<not> have_xkbcommon a then (- 1, g)
         else if xkb_enabled g5 then rebuild_xkb_keymap lib a g5 else (0, g5))"
    unfolding ni_set_xkb_names_def g5_def g4_def g3_def g2_def g1_def Let_def ..
  show ?thesis
    unfolding r using k5 by (simp add: rebuild_xkb_keymap_keeps)
qed

text \<open>
  C10.  A successful \<open>ni_init\<close> on an engine that is not initialized clears the
  whole state before the scan and before the worker starts: afterwards no
  filter and no sink is registered, the legacy pointer reader and the keymap
  are off, and the keymap names are the defaults.  Installing a filter,
  enabling the legacy pointer reader or setting keymap names before init
  returns 0 where the build supports the call, yet \<open>ni_init\<close> gives the same
  result as without it; \<open>ni_register_callback\<close> before init is refused.
\<close>

theorem init_discards_prior_configuration:
  "(\<not> initialized g \<and> fst (ni_init env a g 0) = 0 \<longrightarrow>
      initialized (snd (ni_init env a g 0)) \<and>
      dev_filter (snd (ni_init env a g 0)) = None \<and>
      cb (snd (ni_init env a g 0)) = None \<and>
      key_cb (snd (ni_init env a g 0)) = None \<and>
      \<not> mice_enabled (snd (ni_init env a g 0)) \<and>
      \<not> mice_thread (snd (ni_init env a g 0)) \<and>
      \<not> xkb_enabled (snd (ni_init env a g 0)) \<and>
      xkb_rules (snd (ni_init env a g 0)) = ''evdev'' \<and>
      xkb_model (snd (ni_init env a g 0)) = ''pc105'' \<and>
      xkb_layout (snd (ni_init env a g 0)) = ''us'' \<and>
      xkb_variant (snd (ni_init env a g 0)) = [] \<and>
      xkb_options (snd (ni_init env a g 0)) = []) \<and>
   (\<not> initialized g \<longrightarrow>
      ni_set_device_filter env a g f = (0, g\<lparr>dev_filter := f\<rparr>) \<and>
      ni_init env a (snd (ni_set_device_filter env a g f)) 0 = ni_init env a g 0 \<and>
      ni_enable_mice env g enabled = (0, g\<lparr>mice_enabled := (enabled \<noteq> 0)\<rparr>) \<and>
      ni_init env a (snd (ni_enable_mice env g enabled)) 0 = ni_init env a g 0 \<and>
      ni_init env a (snd (ni_set_xkb_names lib a g rules model layout variant options)) 0 = ni_init env a g 0 \<and>
      ni_register_callback g c 0 = (- 1, g))"
proof (intro conjI impI)
  assume n: "\<not> initialized g"
  show f: "ni_set_device_filter env a g f = (0, g\<lparr>dev_filter := f\<rparr>)"
    using n by (simp add: ni_set_device_filter_def Let_def)
  show "ni_init env a (snd (ni_set_device_filter env a g f)) 0 = ni_init env a g 0"
    unfolding f using n by (intro ni_init_independent) simp_all
  show m: "ni_enable_mice env g enabled = (0, g\<lparr>mice_enabled := (enabled \<noteq> 0)\<rparr>)"
    using n by (simp add: ni_enable_mice_def Let_def)
  show "ni_init env a (snd (ni_enable_mice env g enabled)) 0 = ni_init env a g 0"
    unfolding m using n by (intro ni_init_independent) simp_all
  show "ni_init env a (snd (ni_set_xkb_names lib a g rules model layout variant options)) 0 = ni_init env a g 0"
    using n ni_set_xkb_names_keeps[of lib a g rules model layout variant options]
    by (intro ni_init_independent) simp_all
  show "ni_register_callback g c 0 = (- 1, g)"
    using n by (simp add: ni_register_callback_def)
next
  assume h: "\<not> initialized g \<and> fst (ni_init env a g 0) = 0"
  let ?z = "(engine_zero a g)\<lparr>epoll_fd := os_epoll_create env, mice_fd := - 1\<rparr>"
  let ?w = "(if os_inotify_init env \<ge> 0
               then ?z\<lparr>inotify_fd := os_inotify_init env, sys_log := sys_log g @ [EpollAdd (os_inotify_init env)]\<rparr>
               else ?z\<lparr>inotify_fd := os_inotify_init env\<rparr>)"
  let ?s = "scan_devices env a ?w"
  have n: "\<not> initialized g" using h by simp
  note u = ni_init_unfold[OF n, of env a]
  have ok: "\<not> os_epoll_create env < 0" "have_xkbcommon a" "os_worker_thread_ok env"
    using h unfolding u Let_def by (auto split: if_splits)
  have r: "snd (ni_init env a g 0) =
      ?s\<lparr>stop := False, xkb_rules := ''evdev'', xkb_model := ''pc105'', xkb_layout := ''us'',
          thread := True, initialized := True\<rparr>"
    unfolding u Let_def using ok by simp
  have w: "\<not> mice_enabled ?w" "xkb_variant ?w = []" "xkb_options ?w = []" "dev_filter ?w = None"
    "cb ?w = None" "key_cb ?w = None" "\<not> mice_thread ?w" "\<not> xkb_enabled ?w"
    by (simp_all add: engine_zero_def)
  have s: "\<not> mice_enabled ?s" "xkb_variant ?s = []" "xkb_options ?s = []" "dev_filter ?s = None"
    "cb ?s = None" "key_cb ?s = None" "\<not> mice_thread ?s" "\<not> xkb_enabled ?s"
    using w scan_devices_keeps[of env a ?w] by simp_all
  show "initialized (snd (ni_init env a g 0))"
    and "dev_filter (snd (ni_init env a g 0)) = None"
    and "cb (snd (ni_init env a g 0)) = None"
    and "key_cb (snd (ni_init env a g 0)) = None"
    and "\<not> mice_enabled (snd (ni_init env a g 0))"
    and "\<not> mice_thread (snd (ni_init env a g 0))"
    and "\<not> xkb_enabled (snd (ni_init env a g 0))"
    and "xkb_rules (snd (ni_init env a g 0)) = ''evdev''"
    and "xkb_model (snd (ni_init env a g 0)) = ''pc105''"
    and "xkb_layout (snd (ni_init env a g 0)) = ''us''"
    and "xkb_variant (snd (ni_init env a g 0)) = []"
    and "xkb_options (snd (ni_init env a g 0)) = []"
    unfolding r using s by simp_all
qed


theorem init_discards_prior_configuration_witness:
  "fst (ni_set_device_filter env_two abi_ex (engine_static abi_ex :: unit engine) (Some reject_all)) = 0 \<and>
   dev_filter (snd (ni_set_device_filter env_two abi_ex (engine_static abi_ex :: unit engine) (Some reject_all)))
     = Some reject_all \<and>
   fst (ni_init env_two abi_ex
     (snd (ni_set_device_filter env_two abi_ex (engine_static abi_ex :: unit engine) (Some reject_all))) 0) = 0 \<and>
   dev_filter (snd (ni_init env_two abi_ex
     (snd (ni_set_device_filter env_two abi_ex (engine_static abi_ex :: unit engine) (Some reject_all))) 0)) = None \<and>
   ni_device_count (snd (ni_init env_two abi_ex
     (snd (ni_set_device_filter env_two abi_ex (engine_static abi_ex :: unit engine) (Some reject_all))) 0)) = 2"
proof -
  let ?g = "engine_static abi_ex :: unit engine"
  have n: "\<not> initialized ?g" by (simp add: engine_static_def)
  have ok: "fst (ni_init env_two abi_ex ?g 0) = 0"
    unfolding ni_init_unfold[OF n] Let_def by (simp add: env_two_fields)
  note t = init_discards_prior_configuration[of ?g env_two abi_ex "Some reject_all" 0 xkb_ex None None None None None None]
  have a: "ni_set_device_filter env_two abi_ex ?g (Some reject_all) = (0, ?g\<lparr>dev_filter := Some reject_all\<rparr>)"
    and b: "ni_init env_two abi_ex (snd (ni_set_device_filter env_two abi_ex ?g (Some reject_all))) 0
            = ni_init env_two abi_ex ?g 0"
    using t n by blast+
  have c: "dev_filter (snd (ni_init env_two abi_ex ?g 0)) = None"
    using t n ok by blast
  have d: "ni_device_count (snd (ni_init env_two abi_ex ?g 0)) = 2"
    using engine_two_ex_fields(3) by (simp add: engine_two_ex_def ni_device_count_def ndevi_def)
  show ?thesis unfolding b using a c d ok by simp
qed

end
